theory Spec2Isabelle
  imports Main
begin

section \<open>JavaScript values\<close>

text \<open>
  The values that the adapter (class \<open>GoogleSheetsService\<close>) handles: \<open>undefined\<close>
  (a missing array element or object property), \<open>null\<close>, text, and the values that a
  property read finds on \<open>Object.prototype\<close> when the object itself has no such property:
  a built-in method (named here by its property name) or, for \<open>__proto__\<close>, the object
  \<open>Object.prototype\<close> itself. Cells that the sheet store returns are always text.
\<close>

datatype jsval = JUndefined | JNull | JStr string | JFunction string | JObjectPrototype

text \<open>
  Truthiness, as \<open>||\<close> and \<open>!\<close> test it: of text only the empty one is falsy; functions
  and objects are truthy.
\<close>

definition truthy :: "jsval \<Rightarrow> bool" where
  "truthy v = (case v of JStr s \<Rightarrow> s \<noteq> [] | JFunction f \<Rightarrow> True | JObjectPrototype \<Rightarrow> True
               | _ \<Rightarrow> False)"

text \<open>The operator \<open>a || b\<close>.\<close>

definition js_or :: "jsval \<Rightarrow> jsval \<Rightarrow> jsval" where
  "js_or a b = (if truthy a then a else b)"

text \<open>\<open>row[i]\<close> on an array of cell texts: \<open>undefined\<close> beyond its length.\<close>

definition at_index :: "string list \<Rightarrow> nat \<Rightarrow> jsval" where
  "at_index row i = (if i < length row then JStr (row ! i) else JUndefined)"

text \<open>
  A plain object (a record built by \<open>syncSheet\<close>, an update payload) has its own
  properties, a finite map from names to values, and a prototype, which is
  \<open>Object.prototype\<close> (as for an object literal or a parsed JSON body) or \<open>null\<close>.
\<close>

record jsobject =
  own :: "string \<rightharpoonup> jsval"
  has_prototype :: bool

text \<open>The object literal with the given own properties.\<close>

abbreviation object :: "(string \<rightharpoonup> jsval) \<Rightarrow> jsobject" where
  "object m \<equiv> \<lparr>own = m, has_prototype = True\<rparr>"

text \<open>The properties of \<open>Object.prototype\<close> other than the accessor \<open>__proto__\<close>: its methods.\<close>

definition prototype_methods :: "string list" where
  "prototype_methods =
     [''constructor'', ''__defineGetter__'', ''__defineSetter__'', ''hasOwnProperty'',
      ''__lookupGetter__'', ''__lookupSetter__'', ''isPrototypeOf'', ''propertyIsEnumerable'',
      ''toString'', ''valueOf'', ''toLocaleString'']"

text \<open>
  \<open>obj[k]\<close>: the own property if there is one, otherwise what the prototype has under
  that name, otherwise \<open>undefined\<close>.
\<close>

definition prop_of :: "jsobject \<Rightarrow> string \<Rightarrow> jsval" where
  "prop_of obj k =
     (case own obj k of
        Some v \<Rightarrow> v
      | None \<Rightarrow>
          if \<not> has_prototype obj then JUndefined
          else if k = ''__proto__'' then JObjectPrototype
          else if k \<in> set prototype_methods then JFunction k
          else JUndefined)"

text \<open>
  \<open>obj[k] = v\<close>. Where the name is \<open>__proto__\<close> and the object inherits the accessor of
  that name, the assignment runs the setter and creates no property: \<open>null\<close> removes the
  prototype, text and \<open>undefined\<close> are ignored (an object value would become the
  prototype; the adapter assigns text or \<open>null\<close> only, and the prototypes modelled all
  carry the properties of \<open>Object.prototype\<close>). Any other assignment sets the own
  property.
\<close>

definition assign :: "jsobject \<Rightarrow> string \<Rightarrow> jsval \<Rightarrow> jsobject" where
  "assign obj k v =
     (if k = ''__proto__'' \<and> own obj k = None \<and> has_prototype obj
      then (if v = JNull then obj\<lparr>has_prototype := False\<rparr> else obj)
      else obj\<lparr>own := (own obj)(k \<mapsto> v)\<rparr>)"

text \<open>
  \<open>String.fromCharCode(k)\<close>: the one-unit string whose UTF-16 code unit is \<open>k\<close>
  modulo \<open>2^16\<close>. The string is represented by its code unit.
\<close>

definition fromCharCode :: "int \<Rightarrow> nat" where
  "fromCharCode k = nat (k mod 65536)"

text \<open>
  \<open>Array.prototype.findIndex\<close> with a callback of the element and its index;
  \<open>None\<close> stands for the result \<open>-1\<close>.
\<close>

fun findIndex_from :: "nat \<Rightarrow> ('a \<Rightarrow> nat \<Rightarrow> bool) \<Rightarrow> 'a list \<Rightarrow> nat option" where
  "findIndex_from i p [] = None"
| "findIndex_from i p (x # xs) = (if p x i then Some i else findIndex_from (Suc i) p xs)"

definition findIndex :: "('a \<Rightarrow> nat \<Rightarrow> bool) \<Rightarrow> 'a list \<Rightarrow> nat option" where
  "findIndex p xs = findIndex_from 0 p xs"

section \<open>The remote sheet store\<close>

text \<open>
  The store is the external collaborator behind \<open>sheets.spreadsheets.values.get\<close> and
  \<open>sheets.spreadsheets.values.update\<close>. It is modelled as one tab holding a grid of cell
  texts, row 1 of the sheet first and column A first; a cell outside the stored lists is
  blank, and blank is the empty text.

  A range is the structured form of the A1 strings the adapter builds:
  \<open>T!1:1\<close> has only rows, \<open>T!A2:X\<close> has a start row and no end row, \<open>T!A:X\<close> has only
  columns, \<open>T!A5:X5\<close> has all four parts. A column label is a single code unit.
\<close>

datatype a1range =
  A1Range (tab: string) (start_col: "nat option") (start_row: "nat option")
          (end_col: "nat option") (end_row: "nat option")

datatype request = GetSpreadsheet | Get a1range | Update a1range "jsval list list"

datatype error =
    NotInitialized   \<comment> \<open>\<open>new Error('Sheets service not initialized')\<close>\<close>
  | NotFound jsval   \<comment> \<open>\<open>new Error(`Content with ID ${id} not found`)\<close>\<close>
  | RemoteError      \<comment> \<open>a rejected call of the sheet store\<close>
  | TypeError        \<comment> \<open>a property read on \<open>null\<close>\<close>

record world =
  tabTitle :: string
  grid :: "string list list"
  entered :: "nat \<Rightarrow> nat \<Rightarrow> string \<Rightarrow> string"
  clock :: nat
  outages :: "bool list"
  requests :: "request list"

text \<open>
  \<open>grid\<close> holds what each cell shows, which is what a read returns. \<open>entered\<close> is the
  store's reading of typed input: \<open>entered r c s\<close> is the text that the cell in row \<open>r\<close>
  and column \<open>c\<close> (both counted from 0) shows after the non-empty text \<open>s\<close> has been
  written to it with the input option \<open>USER_ENTERED\<close>, under which the store parses
  text as if typed into the sheet (numbers, dates, formulas, according to the format of
  the cell). It is a parameter of the store; what a write does to other cells through
  formulas is not modelled.

  \<open>outages\<close> scripts the reachability of the store: each remote call consumes the head,
  and fails when it is \<open>True\<close>; an empty script means every call gets through.
  Every call is appended to \<open>requests\<close> and advances the clock.
\<close>

definition cell :: "string list list \<Rightarrow> nat \<Rightarrow> nat \<Rightarrow> string" where
  "cell g r c = (if r < length g \<and> c < length (g ! r) then g ! r ! c else [])"

text \<open>The letters \<open>A\<close> to \<open>Z\<close> (code units 65 to 90) name the columns 1 to 26.\<close>

definition col_number :: "nat \<Rightarrow> nat option" where
  "col_number u = (if 65 \<le> u \<and> u \<le> 90 then Some (u - 64) else None)"

fun col_span :: "nat option \<Rightarrow> nat option \<Rightarrow> (nat \<times> nat option) option" where
  "col_span None None = Some (0, None)"
| "col_span (Some a) (Some b) =
     (case (col_number a, col_number b) of
        (Some x, Some y) \<Rightarrow> if x \<le> y then Some (x - 1, Some (y - x + 1)) else None
      | _ \<Rightarrow> None)"
| "col_span _ _ = None"

fun row_span :: "nat option \<Rightarrow> nat option \<Rightarrow> (nat \<times> nat option) option" where
  "row_span None None = Some (0, None)"
| "row_span (Some r) None = (if 1 \<le> r then Some (r - 1, None) else None)"
| "row_span (Some r) (Some r') =
     (if 1 \<le> r \<and> r \<le> r' then Some (r - 1, Some (r' - r + 1)) else None)"
| "row_span None (Some r') = None"

text \<open>
  A box is the resolved range: first column and width, first row and height
  (zero-based starts; \<open>None\<close> is unbounded). A range on another tab, or with a label
  that is not a column letter, does not resolve, and the store rejects the call.
\<close>

type_synonym box = "nat \<times> nat option \<times> nat \<times> nat option"

definition resolve :: "world \<Rightarrow> a1range \<Rightarrow> box option" where
  "resolve w rng =
     (if tab rng \<noteq> tabTitle w then None
      else case col_span (start_col rng) (end_col rng) of
             None \<Rightarrow> None
           | Some (c0, wd) \<Rightarrow>
               (case row_span (start_row rng) (end_row rng) of
                  None \<Rightarrow> None
                | Some (r0, ht) \<Rightarrow> Some (c0, wd, r0, ht)))"

fun take_opt :: "nat option \<Rightarrow> 'a list \<Rightarrow> 'a list" where
  "take_opt None xs = xs"
| "take_opt (Some k) xs = take k xs"

text \<open>
  A read leaves out trailing blank cells of each row and trailing empty rows, as the
  values API does; a blank row between data rows is returned as the empty row.
\<close>

definition trim_row :: "string list \<Rightarrow> string list" where
  "trim_row r = rev (dropWhile (\<lambda>c. c = []) (rev r))"

definition trim_rows :: "string list list \<Rightarrow> string list list" where
  "trim_rows rs = rev (dropWhile (\<lambda>r. r = []) (rev rs))"

fun select :: "string list list \<Rightarrow> box \<Rightarrow> string list list" where
  "select g (c0, wd, r0, ht) =
     trim_rows (map (\<lambda>row. trim_row (take_opt wd (drop c0 row))) (take_opt ht (drop r0 g)))"

definition remote_call :: "request \<Rightarrow> world \<Rightarrow> bool \<times> world" where
  "remote_call rq w =
     (let w1 = w\<lparr>clock := Suc (clock w), requests := requests w @ [rq]\<rparr>
      in case outages w of
           [] \<Rightarrow> (True, w1)
         | d # ds \<Rightarrow> (\<not> d, w1\<lparr>outages := ds\<rparr>))"

text \<open>
  \<open>values.get\<close>: the result is \<open>response.data.values\<close>, which is absent (\<open>None\<close>) when the
  range holds no data.
\<close>

definition values_get ::
  "a1range \<Rightarrow> world \<Rightarrow> (error + string list list option) \<times> world" where
  "values_get rng w =
     (case remote_call (Get rng) w of
        (False, w1) \<Rightarrow> (Inl RemoteError, w1)
      | (True, w1) \<Rightarrow>
          (case resolve w1 rng of
             None \<Rightarrow> (Inl RemoteError, w1)
           | Some b \<Rightarrow>
               (let rows = select (grid w1) b
                in (Inr (if rows = [] then None else Some rows), w1))))"

text \<open>
  The request body is sent as JSON: inside an array \<open>undefined\<close> and a function are
  written as \<open>null\<close>, and \<open>Object.prototype\<close>, which has no enumerable property, as the
  empty object.
\<close>

datatype json = JsonNull | JsonString string | JsonObject

definition to_json :: "jsval \<Rightarrow> json" where
  "to_json v = (case v of JStr s \<Rightarrow> JsonString s | JObjectPrototype \<Rightarrow> JsonObject | _ \<Rightarrow> JsonNull)"

text \<open>What a cell shows after text has been written to it: the empty text clears it.\<close>

definition store_text :: "(string \<Rightarrow> string) \<Rightarrow> string \<Rightarrow> string" where
  "store_text ent s = (if s = [] then [] else ent s)"

text \<open>
  Writing one row of values from column \<open>c0\<close> on, as the values API treats its input:
  text is entered into the cell, and a \<open>null\<close> entry is skipped and leaves its cell as
  it was.
\<close>

definition write_cells ::
  "(nat \<Rightarrow> nat \<Rightarrow> string \<Rightarrow> string) \<Rightarrow> string list list \<Rightarrow> nat \<Rightarrow> nat \<Rightarrow> jsval list \<Rightarrow>
     string list list" where
  "write_cells ent g r c0 vs =
     (let g1 = g @ replicate (Suc r - length g) [];
          old = g1 ! r;
          wd = max (length old) (c0 + length vs)
      in g1[r := map (\<lambda>c. if c0 \<le> c \<and> c < c0 + length vs
                           then (case to_json (vs ! (c - c0)) of
                                   JsonString s \<Rightarrow> store_text (ent r c) s
                                 | _ \<Rightarrow> cell g r c)
                           else cell g r c) [0..<wd]])"

fun write_rows ::
  "(nat \<Rightarrow> nat \<Rightarrow> string \<Rightarrow> string) \<Rightarrow> string list list \<Rightarrow> nat \<Rightarrow> nat \<Rightarrow> jsval list list \<Rightarrow>
     string list list" where
  "write_rows ent g r c0 [] = g"
| "write_rows ent g r c0 (vs # vss) = write_rows ent (write_cells ent g r c0 vs) (Suc r) c0 vss"

fun fits :: "nat option \<Rightarrow> nat \<Rightarrow> bool" where
  "fits None k = True"
| "fits (Some m) k = (k \<le> m)"

text \<open>
  \<open>values.update\<close>: one overwrite of the range; values that do not fit into the range,
  and a value that is an object, are rejected and nothing is written.
\<close>

definition values_update ::
  "a1range \<Rightarrow> jsval list list \<Rightarrow> world \<Rightarrow> (error + unit) \<times> world" where
  "values_update rng vss w =
     (case remote_call (Update rng vss) w of
        (False, w1) \<Rightarrow> (Inl RemoteError, w1)
      | (True, w1) \<Rightarrow>
          (case resolve w1 rng of
             None \<Rightarrow> (Inl RemoteError, w1)
           | Some (c0, wd, r0, ht) \<Rightarrow>
               if fits ht (length vss) \<and> list_all (\<lambda>vs. fits wd (length vs)) vss \<and>
                  list_all (list_all (\<lambda>v. to_json v \<noteq> JsonObject)) vss
               then (Inr (), w1\<lparr>grid := write_rows (entered w1) (grid w1) r0 c0 vss\<rparr>)
               else (Inl RemoteError, w1)))"

section \<open>The adapter\<close>

text \<open>
  The fields of \<open>GoogleSheetsService\<close> that its operations read or write: whether the
  client \<open>this.sheets\<close> has been built, the tab title, the cached header row and the
  time of the last sync.
\<close>

record service =
  sheets :: bool
  sheetTitle :: "string option"
  columnHeaders :: "string list option"
  lastSyncTime :: "nat option"

text \<open>\<open>${this.sheetTitle}\<close> in a template string: \<open>null\<close> prints as \<open>null\<close>.\<close>

definition title_text :: "string option \<Rightarrow> string" where
  "title_text t = (case t of None \<Rightarrow> ''null'' | Some x \<Rightarrow> x)"

text \<open>The guard \<open>!this.sheets || !this.sheetTitle\<close>.\<close>

definition not_initialized :: "service \<Rightarrow> bool" where
  "not_initialized s = (\<not> sheets s \<or> (case sheetTitle s of None \<Rightarrow> True | Some t \<Rightarrow> t = []))"

text \<open>\<open>response.data.values || []\<close>.\<close>

definition values_or_empty :: "string list list option \<Rightarrow> string list list" where
  "values_or_empty vals = (case vals of None \<Rightarrow> [] | Some rows \<Rightarrow> rows)"

text \<open>
  \<open>loadColumnHeaders\<close>: reads \<open>T!1:1\<close>, caches \<open>response.data.values?.[0] || []\<close> and
  returns it. An array, also the empty one, is truthy.
\<close>

definition loadColumnHeaders :: "service \<Rightarrow> world \<Rightarrow> (error + string list) \<times> service \<times> world" where
  "loadColumnHeaders s w =
     (if \<not> sheets s then (Inl TypeError, s, w)
      else case values_get (A1Range (title_text (sheetTitle s)) None (Some 1) None (Some 1)) w of
             (Inl e, w1) \<Rightarrow> (Inl e, s, w1)
           | (Inr vals, w1) \<Rightarrow>
               (let hs = (case vals of None \<Rightarrow> []
                          | Some rows \<Rightarrow> (case rows of [] \<Rightarrow> [] | r # _ \<Rightarrow> r))
                in (Inr hs, s\<lparr>columnHeaders := Some hs\<rparr>, w1)))"

text \<open>
  \<open>initialize\<close>: builds the client, asks the store for the spreadsheet and takes the title
  of its first tab, then loads the header row. (The periodic timer it starts is not
  modelled.) An error leaves the fields set so far.
\<close>

definition initialize :: "service \<Rightarrow> world \<Rightarrow> (error + unit) \<times> service \<times> world" where
  "initialize s w =
     (let s1 = s\<lparr>sheets := True\<rparr>
      in case remote_call GetSpreadsheet w of
           (False, w1) \<Rightarrow> (Inl RemoteError, s1, w1)
         | (True, w1) \<Rightarrow>
             (let s2 = s1\<lparr>sheetTitle := Some (tabTitle w1)\<rparr>
              in case loadColumnHeaders s2 w1 of
                   (Inl e, s3, w2) \<Rightarrow> (Inl e, s3, w2)
                 | (Inr hs, s3, w2) \<Rightarrow> (Inr (), s3, w2)))"

text \<open>\<open>getColumnHeaders\<close>: loads only if \<open>!this.columnHeaders\<close>, that is if nothing is cached.\<close>

definition getColumnHeaders :: "service \<Rightarrow> world \<Rightarrow> (error + string list) \<times> service \<times> world" where
  "getColumnHeaders s w =
     (case columnHeaders s of
        None \<Rightarrow> loadColumnHeaders s w
      | Some hs \<Rightarrow> (Inr hs, s, w))"

text \<open>
  The body of \<open>rows.map\<close> in \<open>syncSheet\<close>: \<open>headers.forEach((header, index) =>
  item[header] = row[index] || null)\<close> on an empty \<open>item\<close>.
\<close>

fun forEach_header :: "string list \<Rightarrow> nat \<Rightarrow> string list \<Rightarrow> jsobject \<Rightarrow> jsobject" where
  "forEach_header [] index row item = item"
| "forEach_header (header # hs) index row item =
     forEach_header hs (Suc index) row (assign item header (js_or (at_index row index) JNull))"

definition row_to_item :: "string list \<Rightarrow> string list \<Rightarrow> jsobject" where
  "row_to_item headers row = forEach_header headers 0 row (object Map.empty)"

definition syncSheet :: "service \<Rightarrow> world \<Rightarrow> (error + jsobject list) \<times> service \<times> world" where
  "syncSheet s w =
     (if not_initialized s then (Inl NotInitialized, s, w)
      else case getColumnHeaders s w of
             (Inl e, s1, w1) \<Rightarrow> (Inl e, s1, w1)
           | (Inr headers, s1, w1) \<Rightarrow>
               (let lastCol = fromCharCode (65 + int (length headers) - 1);
                    range = A1Range (title_text (sheetTitle s1)) (Some 65) (Some 2) (Some lastCol) None
                in case values_get range w1 of
                     (Inl e, w2) \<Rightarrow> (Inl e, s1, w2)
                   | (Inr vals, w2) \<Rightarrow>
                       (let rows = values_or_empty vals;
                            s2 = s1\<lparr>lastSyncTime := Some (clock w2)\<rparr>
                        in (Inr (map (row_to_item headers) rows), s2, w2))))"

text \<open>
  \<open>getContentById\<close>: a full sync, then \<open>find(item => item['Post ID'] === id)\<close>;
  \<open>None\<close> stands for the result \<open>undefined\<close>.
\<close>

definition getContentById ::
  "jsval \<Rightarrow> service \<Rightarrow> world \<Rightarrow> (error + jsobject option) \<times> service \<times> world" where
  "getContentById pid s w =
     (case syncSheet s w of
        (Inl e, s1, w1) \<Rightarrow> (Inl e, s1, w1)
      | (Inr allContent, s1, w1) \<Rightarrow>
          (Inr (find (\<lambda>item. prop_of item ''Post ID'' = pid) allContent), s1, w1))"

text \<open>
  The row that \<open>updateContent\<close> builds: \<open>headers.map((header, colIndex) => ...)\<close> takes
  \<open>updates[header]\<close> if it is not \<open>undefined\<close>, otherwise \<open>existingData[colIndex] || ''\<close>.
\<close>

fun map_headers :: "string list \<Rightarrow> nat \<Rightarrow> jsobject \<Rightarrow> string list \<Rightarrow> jsval list" where
  "map_headers [] colIndex updates existingData = []"
| "map_headers (header # hs) colIndex updates existingData =
     (if prop_of updates header \<noteq> JUndefined then prop_of updates header
      else js_or (at_index existingData colIndex) (JStr [])) #
     map_headers hs (Suc colIndex) updates existingData"

definition newRowData :: "string list \<Rightarrow> jsobject \<Rightarrow> string list \<Rightarrow> jsval list" where
  "newRowData headers updates existingData = map_headers headers 0 updates existingData"

text \<open>
  \<open>updateContent\<close>: reads \<open>T!A:X\<close> afresh, finds the first row after the header row whose
  first cell is \<open>id\<close>, and overwrites \<open>T!A<r>:X<r>\<close> with the rebuilt row, \<open>r\<close> being the
  index found plus one.
\<close>

definition updateContent ::
  "jsval \<Rightarrow> jsobject \<Rightarrow> service \<Rightarrow> world \<Rightarrow> (error + bool) \<times> service \<times> world" where
  "updateContent pid updates s w =
     (if not_initialized s then (Inl NotInitialized, s, w)
      else case getColumnHeaders s w of
             (Inl e, s1, w1) \<Rightarrow> (Inl e, s1, w1)
           | (Inr headers, s1, w1) \<Rightarrow>
               (let lastCol = fromCharCode (65 + int (length headers) - 1);
                    title = title_text (sheetTitle s1);
                    range = A1Range title (Some 65) None (Some lastCol) None
                in case values_get range w1 of
                     (Inl e, w2) \<Rightarrow> (Inl e, s1, w2)
                   | (Inr vals, w2) \<Rightarrow>
                       (let rows = values_or_empty vals
                        in case findIndex (\<lambda>row index. index > 0 \<and> at_index row 0 = pid) rows of
                             None \<Rightarrow> (Inl (NotFound pid), s1, w2)
                           | Some rowIndex \<Rightarrow>
                               (let existingData = rows ! rowIndex;
                                    new = newRowData headers updates existingData;
                                    target = A1Range title (Some 65) (Some (rowIndex + 1))
                                                     (Some lastCol) (Some (rowIndex + 1))
                                in case values_update target [new] w2 of
                                     (Inl e, w3) \<Rightarrow> (Inl e, s1, w3)
                                   | (Inr u, w3) \<Rightarrow> (Inr True, s1, w3)))))"

section \<open>Reading a record before and after an update\<close>

text \<open>
  The sequence \<open>getContentById(id)\<close>, \<open>updateContent(id, updates)\<close>,
  \<open>getContentById(id)\<close> on one adapter and one sheet, with the three results.
\<close>

definition read_update_read ::
  "jsval \<Rightarrow> jsobject \<Rightarrow> service \<Rightarrow> world \<Rightarrow>
     (error + jsobject option) \<times> (error + bool) \<times> (error + jsobject option)" where
  "read_update_read pid updates s w =
     (case getContentById pid s w of
        (r0, s0, w0) \<Rightarrow>
          (case updateContent pid updates s0 w0 of
             (r1, s1, w1) \<Rightarrow>
               (case getContentById pid s1 w1 of
                  (r2, s2, w2) \<Rightarrow> (r0, r1, r2))))"

section \<open>Operating conditions\<close>

text \<open>
  The adapter is ready for a sheet when it has been initialised on the sheet's tab, the
  schema \<open>hs\<close> is cached (as it is after \<open>initialize\<close>) and has between 1 and 26 columns
  (the widths whose last column the adapter can name), and the store is reachable.
\<close>

definition ready :: "service \<Rightarrow> world \<Rightarrow> string list \<Rightarrow> bool" where
  "ready s w hs \<longleftrightarrow>
     sheets s \<and> tabTitle w \<noteq> [] \<and> sheetTitle s = Some (tabTitle w) \<and>
     columnHeaders s = Some hs \<and> 1 \<le> length hs \<and> length hs \<le> 26 \<and> outages w = []"

section \<open>Example sheets\<close>

text \<open>
  The cells of the example sheets are formatted as plain text, so that the store takes
  typed input literally.

  An initialised adapter with the schema \<open>Post ID, Status\<close> cached, and a reachable
  sheet with two content items.
\<close>

definition example_service :: service where
  "example_service =
     \<lparr>sheets = True, sheetTitle = Some ''Sheet1'',
        columnHeaders = Some [''Post ID'', ''Status''], lastSyncTime = None\<rparr>"

definition example_world :: world where
  "example_world =
     \<lparr>tabTitle = ''Sheet1'',
        grid = [[''Post ID'', ''Status''], [''a'', ''Draft''], [''b'', ''Approved'']],
        entered = (\<lambda>r c s. s), clock = 0, outages = [], requests = []\<rparr>"

text \<open>
  The same sheet with cells of the automatic format, of which only this is modelled:
  typed digits are read as a number, which shows without leading zeros.
\<close>

definition typed_number :: "string \<Rightarrow> string" where
  "typed_number s =
     (if s \<noteq> [] \<and> list_all (\<lambda>c. c \<in> set ''0123456789'') s
      then (case dropWhile (\<lambda>c. c = CHR ''0'') s of [] \<Rightarrow> ''0'' | d # ds \<Rightarrow> d # ds)
      else s)"

definition automatic_world :: world where
  "automatic_world = example_world\<lparr>entered := (\<lambda>r c. typed_number)\<rparr>"

text \<open>The same sheet with a second row for the identifier \<open>b\<close>.\<close>

definition duplicate_world :: world where
  "duplicate_world =
     \<lparr>tabTitle = ''Sheet1'',
        grid = [[''Post ID'', ''Status''], [''a'', ''Draft''], [''b'', ''Approved''],
                [''b'', ''In Review'']],
        entered = (\<lambda>r c s. s), clock = 0, outages = [], requests = []\<rparr>"

text \<open>The sheet of the specification's example, whose first column is named \<open>ID\<close>.\<close>

definition spec_service :: service where
  "spec_service =
     \<lparr>sheets = True, sheetTitle = Some ''Sheet1'',
        columnHeaders = Some [''ID'', ''Status''], lastSyncTime = None\<rparr>"

definition spec_world :: world where
  "spec_world =
     \<lparr>tabTitle = ''Sheet1'',
        grid = [[''ID'', ''Status''], [''a'', ''Draft''], [''b'', ''Approved'']],
        entered = (\<lambda>r c s. s), clock = 0, outages = [], requests = []\<rparr>"

text \<open>A sheet of three columns with a short row and a blank cell.\<close>

definition ragged_service :: service where
  "ragged_service =
     \<lparr>sheets = True, sheetTitle = Some ''Sheet1'',
        columnHeaders = Some [''Post ID'', ''Status'', ''Topic''], lastSyncTime = None\<rparr>"

definition ragged_world :: world where
  "ragged_world =
     \<lparr>tabTitle = ''Sheet1'',
        grid = [[''Post ID'', ''Status'', ''Topic''], [''a'', ''Draft''], [''b'', [], ''Cats'']],
        entered = (\<lambda>r c s. s), clock = 0, outages = [], requests = []\<rparr>"

text \<open>A sheet in which two columns have the same name.\<close>

definition duplicate_columns_service :: service where
  "duplicate_columns_service =
     \<lparr>sheets = True, sheetTitle = Some ''Sheet1'',
        columnHeaders = Some [''Post ID'', ''Note'', ''Note''], lastSyncTime = None\<rparr>"

definition duplicate_columns_world :: world where
  "duplicate_columns_world =
     \<lparr>tabTitle = ''Sheet1'',
        grid = [[''Post ID'', ''Note'', ''Note''], [''a'', ''Open'', ''Closed'']],
        entered = (\<lambda>r c s. s), clock = 0, outages = [], requests = []\<rparr>"

text \<open>A sheet of 27 columns, one more than the letters \<open>A\<close> to \<open>Z\<close> name.\<close>

definition wide_service :: service where
  "wide_service =
     \<lparr>sheets = True, sheetTitle = Some ''Sheet1'',
        columnHeaders = Some (''Post ID'' # replicate 26 ''Note''), lastSyncTime = None\<rparr>"

definition wide_world :: world where
  "wide_world =
     \<lparr>tabTitle = ''Sheet1'',
        grid = [''Post ID'' # replicate 26 ''Note'', [''b'', ''Draft'']],
        entered = (\<lambda>r c s. s), clock = 0, outages = [], requests = []\<rparr>"

section \<open>Properties\<close>


subsection \<open>Unfolding on concrete sheets\<close>

lemmas eval_defs =
  initialize_def updateContent_def syncSheet_def getContentById_def loadColumnHeaders_def getColumnHeaders_def
  not_initialized_def title_text_def fromCharCode_def values_get_def values_update_def
  remote_call_def resolve_def col_number_def trim_rows_def trim_row_def values_or_empty_def
  findIndex_def at_index_def newRowData_def row_to_item_def prop_of_def js_or_def truthy_def
  write_cells_def cell_def Let_def select.simps read_update_read_def
  to_json_def store_text_def assign_def prototype_methods_def

subsection \<open>What a read returns\<close>

lemma drop_trailing_decomp:
  fixes xs :: "'a list list"
  shows "\<exists>k. xs = rev (dropWhile (\<lambda>c. c = []) (rev xs)) @ replicate k []"
proof -
  let ?P = "\<lambda>c::'a list. c = []"
  let ?ys = "rev (takeWhile ?P (rev xs))"
  have xs: "xs = rev (dropWhile ?P (rev xs)) @ ?ys"
    by (metis rev_append rev_rev_ident takeWhile_dropWhile_id)
  have "\<forall>y \<in> set ?ys. y = []"
    by (auto dest: set_takeWhileD)
  then have "replicate (length ?ys) [] = ?ys"
    by (rule replicate_length_same)
  then show ?thesis using xs by metis
qed

lemma trim_row_decomp: "\<exists>k. r = trim_row r @ replicate k []"
  unfolding trim_row_def by (rule drop_trailing_decomp)

lemma trim_rows_decomp: "\<exists>k. rs = trim_rows rs @ replicate k []"
  unfolding trim_rows_def by (rule drop_trailing_decomp)

lemma trim_row_last: "trim_row r \<noteq> [] \<Longrightarrow> last (trim_row r) \<noteq> []"
  unfolding trim_row_def
  by (metis (mono_tags, lifting) dropWhile_eq_Nil_conv hd_dropWhile last_rev rev_is_Nil_conv)

lemma trim_rows_last: "trim_rows rs \<noteq> [] \<Longrightarrow> last (trim_rows rs) \<noteq> []"
  unfolding trim_rows_def
  by (metis (mono_tags, lifting) dropWhile_eq_Nil_conv hd_dropWhile last_rev rev_is_Nil_conv)

lemma js_or_at_index_trim:
  "js_or (at_index (trim_row r) i) d = js_or (at_index r i) d"
proof -
  obtain k where r: "r = trim_row r @ replicate k []"
    using trim_row_decomp by blast
  show ?thesis
  proof (cases "i < length (trim_row r)")
    case True
    then have "at_index r i = at_index (trim_row r) i"
      using r by (metis at_index_def length_append nth_append trans_less_add1)
    then show ?thesis by simp
  next
    case False
    then have a: "at_index (trim_row r) i = JUndefined" by (simp add: at_index_def)
    have "i < length r \<Longrightarrow> r ! i = []"
      using False r by (metis length_append length_replicate not_less nth_append nth_replicate add_diff_inverse_nat nat_add_left_cancel_less)
    then have "\<not> truthy (at_index r i)" by (simp add: at_index_def truthy_def)
    then show ?thesis using a by (simp add: js_or_def truthy_def)
  qed
qed

lemma js_or_at_index:
  "js_or (at_index r i) d = (if i < length r \<and> r ! i \<noteq> [] then JStr (r ! i) else d)"
  by (simp add: js_or_def at_index_def truthy_def)

lemma trim_row_Nil_nth: "trim_row r = [] \<Longrightarrow> i < length r \<Longrightarrow> r ! i = []"
  using trim_row_decomp [of r] by auto

lemma trim_rows_length: "length (trim_rows rs) \<le> length rs"
  using trim_rows_decomp [of rs] by (metis le_add1 length_append)

lemma trim_rows_nth: "j < length (trim_rows rs) \<Longrightarrow> trim_rows rs ! j = rs ! j"
  using trim_rows_decomp [of rs] by (metis nth_append)

lemma trim_rows_beyond: "length (trim_rows rs) \<le> j \<Longrightarrow> j < length rs \<Longrightarrow> rs ! j = []"
proof -
  assume a: "length (trim_rows rs) \<le> j" "j < length rs"
  obtain k where k: "rs = trim_rows rs @ replicate k []"
    using trim_rows_decomp by blast
  have "rs ! j = (trim_rows rs @ replicate k []) ! j" using k by simp
  also have "\<dots> = replicate k [] ! (j - length (trim_rows rs))"
    using a by (simp add: nth_append)
  also have "\<dots> = []"
    using a k by (metis add_diff_inverse_nat length_append length_replicate nat_add_left_cancel_less not_less nth_replicate)
  finally show ?thesis .
qed

text \<open>The rows a read of the first \<open>n\<close> columns returns, from row index \<open>r0\<close> on.\<close>

lemma select_length: "length (select g (0, Some n, r0, None)) \<le> length g - r0"
  using trim_rows_length [of "map (\<lambda>row. trim_row (take n row)) (drop r0 g)"] by simp

lemma select_nth:
  assumes "j < length (select g (0, Some n, r0, None))"
  shows "select g (0, Some n, r0, None) ! j = trim_row (take n (g ! (r0 + j)))"
proof -
  have "j < length g - r0" using assms select_length [of g n r0] by simp
  then show ?thesis using assms by (simp add: trim_rows_nth)
qed

lemma select_cell:
  assumes "j < length (select g (0, Some n, r0, None))"
  shows "js_or (at_index (select g (0, Some n, r0, None) ! j) i) d =
         (if i < n \<and> cell g (r0 + j) i \<noteq> [] then JStr (cell g (r0 + j) i) else d)"
proof -
  have j: "r0 + j < length g" using assms select_length [of g n r0] by simp
  have "js_or (at_index (select g (0, Some n, r0, None) ! j) i) d =
        js_or (at_index (take n (g ! (r0 + j))) i) d"
    by (simp only: select_nth [OF assms] js_or_at_index_trim)
  also have "\<dots> = (if i < n \<and> cell g (r0 + j) i \<noteq> [] then JStr (cell g (r0 + j) i) else d)"
    using j by (auto simp: js_or_at_index cell_def)
  finally show ?thesis .
qed

lemma select_beyond:
  assumes "length (select g (0, Some n, r0, None)) \<le> j" and "i < n"
  shows "cell g (r0 + j) i = []"
proof (cases "r0 + j < length g \<and> i < length (g ! (r0 + j))")
  case False
  then show ?thesis by (auto simp: cell_def)
next
  case True
  let ?m = "map (\<lambda>row. trim_row (take n row)) (drop r0 g)"
  have "?m ! j = []"
    using assms True by (intro trim_rows_beyond) auto
  moreover have "j < length g - r0" using True by arith
  then have "?m ! j = trim_row (take n (g ! (r0 + j)))" by simp
  ultimately have "trim_row (take n (g ! (r0 + j))) = []" by simp
  then have "take n (g ! (r0 + j)) ! i = []"
    using True assms by (intro trim_row_Nil_nth) auto
  then show ?thesis using True assms by (simp add: cell_def)
qed

lemma at_index_trim_row:
  assumes "at_index (trim_row r) i = JStr t"
  shows "i < length r \<and> r ! i = t"
proof -
  obtain k where k: "r = trim_row r @ replicate k []"
    using trim_row_decomp by blast
  have i: "i < length (trim_row r)" "trim_row r ! i = t"
    using assms by (auto simp: at_index_def split: if_splits)
  have "(trim_row r @ replicate k []) ! i = t" using i by (simp add: nth_append)
  then have "r ! i = t" using k by simp
  moreover have "i < length r" using i(1) k by (metis length_append trans_less_add1)
  ultimately show ?thesis by simp
qed

lemma select_last_nonblank:
  assumes "select g (0, Some n, r0, None) \<noteq> []"
  shows "\<exists>i < n. cell g (r0 + (length (select g (0, Some n, r0, None)) - 1)) i \<noteq> []"
proof -
  let ?rows = "select g (0, Some n, r0, None)"
  let ?m = "length ?rows - 1"
  have m: "?m < length ?rows" using assms by simp
  have j: "r0 + ?m < length g" using m select_length [of g n r0] by simp
  let ?r = "take n (g ! (r0 + ?m))"
  have "last ?rows \<noteq> []"
    using assms trim_rows_last [of "map (\<lambda>row. trim_row (take n row)) (drop r0 g)"] by simp
  then have "?rows ! ?m \<noteq> []" using assms by (simp add: last_conv_nth)
  then have ne: "trim_row ?r \<noteq> []" unfolding select_nth [OF m] .
  let ?i = "length (trim_row ?r) - 1"
  have "at_index (trim_row ?r) ?i = JStr (last (trim_row ?r))"
    using ne by (simp add: at_index_def last_conv_nth)
  from at_index_trim_row [OF this] have i: "?i < length ?r" "?r ! ?i = last (trim_row ?r)"
    by auto
  have "last (trim_row ?r) \<noteq> []" using ne by (rule trim_row_last)
  then have "cell g (r0 + ?m) ?i \<noteq> []" using i j by (simp add: cell_def)
  moreover have "?i < n" using i(1) by simp
  ultimately show ?thesis by blast
qed

declare select.simps [simp del]

subsection \<open>Remote calls\<close>

lemma remote_call_frame:
  "remote_call rq w = (ok, w') \<Longrightarrow>
     grid w' = grid w \<and> tabTitle w' = tabTitle w \<and> requests w' = requests w @ [rq] \<and>
     clock w' = Suc (clock w) \<and> entered w' = entered w"
  by (auto simp: remote_call_def Let_def split: list.splits)

lemma remote_call_ok:
  "outages w = [] \<Longrightarrow>
     remote_call rq w = (True, w\<lparr>clock := Suc (clock w), requests := requests w @ [rq]\<rparr>)"
  by (simp add: remote_call_def)

lemma resolve_frame:
  "grid w' = grid w \<Longrightarrow> tabTitle w' = tabTitle w \<Longrightarrow> resolve w' rng = resolve w rng"
  by (simp add: resolve_def)

lemma values_get_frame:
  "values_get rng w = (r, w') \<Longrightarrow>
     grid w' = grid w \<and> tabTitle w' = tabTitle w \<and> requests w' = requests w @ [Get rng] \<and>
     clock w' = Suc (clock w) \<and> entered w' = entered w"
  by (auto simp: values_get_def Let_def split: prod.splits bool.splits option.splits
           dest: remote_call_frame)

lemma values_get_ok:
  assumes "outages w = []" and "resolve w rng = Some b"
  shows "values_get rng w =
           (Inr (if select (grid w) b = [] then None else Some (select (grid w) b)),
            w\<lparr>clock := Suc (clock w), requests := requests w @ [Get rng]\<rparr>)"
proof -
  let ?w1 = "w\<lparr>clock := Suc (clock w), requests := requests w @ [Get rng]\<rparr>"
  have "resolve ?w1 rng = Some b" using assms(2) by (simp add: resolve_def)
  then show ?thesis
    using assms(1) by (simp add: values_get_def remote_call_ok Let_def del: select.simps)
qed

lemma values_or_empty_select [simp]:
  "values_or_empty (if rows = [] then None else Some rows) = rows"
  by (simp add: values_or_empty_def)

lemma trim_row_blank: "(\<forall>c < length r. r ! c = []) \<Longrightarrow> trim_row r = []"
  unfolding trim_row_def by (auto simp: dropWhile_eq_Nil_conv in_set_conv_nth)

lemma select_blank_header:
  assumes "\<forall>c. cell g 0 c = []"
  shows "select g (0, None, 0, Some 1) = []"
proof (cases g)
  case Nil
  then show ?thesis by (simp add: select.simps trim_rows_def)
next
  case (Cons r rs)
  have "\<forall>c < length r. r ! c = []"
  proof (intro allI impI)
    fix c assume "c < length r"
    then show "r ! c = []" using assms [rule_format, of c] Cons by (simp add: cell_def)
  qed
  then have "trim_row r = []" by (rule trim_row_blank)
  then show ?thesis using Cons by (simp add: select.simps trim_rows_def)
qed

text \<open>
  Claim C3, amended. When the header row (row 1) of the sheet is empty and the store is
  reachable, \<open>loadColumnHeaders\<close> does not fail: it returns the empty column list and
  caches it. The adapter has no schema error.
\<close>

theorem loadColumnHeaders_empty_header_row:
  assumes "sheets s" and "sheetTitle s = Some (tabTitle w)" and "outages w = []"
    and "\<forall>c. cell (grid w) 0 c = []"
  shows "fst (loadColumnHeaders s w) = Inr [] \<and>
         fst (snd (loadColumnHeaders s w)) = s\<lparr>columnHeaders := Some []\<rparr>"
proof -
  let ?rng = "A1Range (title_text (sheetTitle s)) None (Some 1) None (Some 1)"
  have "resolve w ?rng = Some (0, None, 0, Some 1)"
    using assms(2) by (simp add: resolve_def title_text_def)
  then have "values_get ?rng w =
      (Inr None, w\<lparr>clock := Suc (clock w), requests := requests w @ [Get ?rng]\<rparr>)"
    using values_get_ok [OF assms(3), of ?rng] select_blank_header [OF assms(4)] by simp
  then show ?thesis using assms(1) by (simp add: loadColumnHeaders_def)
qed

theorem loadColumnHeaders_empty_header_row_witness:
  "fst (loadColumnHeaders
         \<lparr>sheets = True, sheetTitle = Some ''Sheet1'', columnHeaders = None, lastSyncTime = None\<rparr>
         \<lparr>tabTitle = ''Sheet1'', grid = [[], [''p1'', ''Draft'']], entered = (\<lambda>r c s. s), clock = 0, outages = [],
            requests = []\<rparr>) = Inr []"
  using loadColumnHeaders_empty_header_row
    [of "\<lparr>sheets = True, sheetTitle = Some ''Sheet1'', columnHeaders = None, lastSyncTime = None\<rparr>"
        "\<lparr>tabTitle = ''Sheet1'', grid = [[], [''p1'', ''Draft'']], entered = (\<lambda>r c s. s), clock = 0, outages = [],
            requests = []\<rparr>"]
  by (simp add: cell_def)

text \<open>
  Claim C3 as stated fails: on a sheet whose row 1 is empty, loading the schema
  returns the empty list and caches it.
\<close>

theorem loadColumnHeaders_returns_empty_list:
  "loadColumnHeaders
     \<lparr>sheets = True, sheetTitle = Some ''Sheet1'', columnHeaders = None, lastSyncTime = None\<rparr>
     \<lparr>tabTitle = ''Sheet1'', grid = [[], [''p1'', ''Draft'']], entered = (\<lambda>r c s. s), clock = 0, outages = [],
        requests = []\<rparr> =
   (Inr [],
    \<lparr>sheets = True, sheetTitle = Some ''Sheet1'', columnHeaders = Some [], lastSyncTime = None\<rparr>,
    \<lparr>tabTitle = ''Sheet1'', grid = [[], [''p1'', ''Draft'']], entered = (\<lambda>r c s. s), clock = 1, outages = [],
       requests = [Get (A1Range ''Sheet1'' None (Some 1) None (Some 1))]\<rparr>)"
  by (simp add: loadColumnHeaders_def values_get_def remote_call_def resolve_def title_text_def
                select.simps trim_rows_def trim_row_def)

subsection \<open>The rebuilt row\<close>

lemma map_headers_length: "length (map_headers hs c u e) = length hs"
  by (induction hs arbitrary: c) auto

lemma map_headers_nth:
  "i < length hs \<Longrightarrow>
     map_headers hs c u e ! i =
       (if prop_of u (hs ! i) \<noteq> JUndefined then prop_of u (hs ! i)
        else js_or (at_index e (c + i)) (JStr []))"
proof (induction hs arbitrary: c i)
  case Nil
  then show ?case by simp
next
  case (Cons h hs)
  show ?case
  proof (cases i)
    case 0
    then show ?thesis by simp
  next
    case (Suc i')
    then have "i' < length hs" using Cons.prems by simp
    from Cons.IH [OF this, of "Suc c"] show ?thesis using Suc by simp
  qed
qed

lemma map_headers_cong:
  "(\<forall>h \<in> set hs. prop_of u' h = prop_of u h) \<Longrightarrow> map_headers hs c u' e = map_headers hs c u e"
  by (induction hs arbitrary: c) auto

lemma newRowData_length: "length (newRowData hs u e) = length hs"
  by (simp add: newRowData_def map_headers_length)

lemma newRowData_nth:
  "i < length hs \<Longrightarrow>
     newRowData hs u e ! i =
       (if prop_of u (hs ! i) \<noteq> JUndefined then prop_of u (hs ! i)
        else js_or (at_index e i) (JStr []))"
  by (simp add: newRowData_def map_headers_nth)

subsection \<open>Inversion of the store operations\<close>

lemma values_get_Inr:
  assumes "values_get rng w = (Inr vals, w')"
  shows "\<exists>b. resolve w rng = Some b \<and> values_or_empty vals = select (grid w) b"
proof -
  obtain ok w1 where rc: "remote_call (Get rng) w = (ok, w1)" by (cases "remote_call (Get rng) w")
  then have fr: "grid w1 = grid w" "tabTitle w1 = tabTitle w"
    using remote_call_frame by blast+
  have "resolve w1 rng = resolve w rng" using fr by (rule resolve_frame)
  then show ?thesis
    using assms rc fr
    by (auto simp: values_get_def Let_def values_or_empty_def simp del: select.simps
             split: bool.splits option.splits if_splits)
qed

lemma values_update_frame:
  "values_update rng vss w = (r, w') \<Longrightarrow>
     tabTitle w' = tabTitle w \<and> requests w' = requests w @ [Update rng vss] \<and>
     clock w' = Suc (clock w) \<and> entered w' = entered w"
  by (auto simp: values_update_def split: prod.splits bool.splits option.splits if_splits
           dest: remote_call_frame)

lemma values_update_Inl:
  "values_update rng vss w = (Inl e, w') \<Longrightarrow> grid w' = grid w"
  by (auto simp: values_update_def split: prod.splits bool.splits option.splits if_splits
           dest: remote_call_frame)

lemma values_update_Inr:
  assumes "values_update rng vss w = (Inr u, w')"
  shows "\<exists>c0 wd r0 ht. resolve w rng = Some (c0, wd, r0, ht) \<and> fits ht (length vss) \<and>
           list_all (\<lambda>vs. fits wd (length vs)) vss \<and>
           list_all (list_all (\<lambda>v. to_json v \<noteq> JsonObject)) vss \<and>
           grid w' = write_rows (entered w) (grid w) r0 c0 vss"
proof -
  obtain ok w1 where rc: "remote_call (Update rng vss) w = (ok, w1)"
    by (cases "remote_call (Update rng vss) w")
  then have fr: "grid w1 = grid w" "tabTitle w1 = tabTitle w" and en: "entered w1 = entered w"
    using remote_call_frame by blast+
  have "resolve w1 rng = resolve w rng" using fr by (rule resolve_frame)
  then show ?thesis
    using assms rc fr en
    by (auto simp: values_update_def split: bool.splits option.splits if_splits)
qed

lemma values_update_ok:
  assumes "outages w = []" and "resolve w rng = Some (c0, wd, r0, ht)"
    and "fits ht (length vss)" and "list_all (\<lambda>vs. fits wd (length vs)) vss"
    and "list_all (list_all (\<lambda>v. to_json v \<noteq> JsonObject)) vss"
  shows "values_update rng vss w =
           (Inr (), w\<lparr>clock := Suc (clock w), requests := requests w @ [Update rng vss],
                       grid := write_rows (entered w) (grid w) r0 c0 vss\<rparr>)"
proof -
  let ?w1 = "w\<lparr>clock := Suc (clock w), requests := requests w @ [Update rng vss]\<rparr>"
  have "resolve ?w1 rng = Some (c0, wd, r0, ht)" using assms(2) by (simp add: resolve_def)
  then show ?thesis
    using assms by (simp add: values_update_def remote_call_ok)
qed

subsection \<open>Ranges built by the adapter\<close>

lemma lastCol_wrap: "fromCharCode (65 + int n - 1) = (64 + n) mod 65536"
proof -
  have "65 + int n - 1 = int (64 + n)" by simp
  then have "fromCharCode (65 + int n - 1) = nat (int (64 + n) mod int 65536)"
    unfolding fromCharCode_def by simp
  also have "\<dots> = nat (int ((64 + n) mod 65536))"
    by (simp only: zmod_int)
  also have "\<dots> = (64 + n) mod 65536" by (rule nat_int)
  finally show ?thesis .
qed

lemma lastCol_letter:
  "n \<le> 26 \<Longrightarrow> fromCharCode (65 + int n - 1) = 64 + n"
  by (simp only: lastCol_wrap) simp

lemma resolve_columns:
  assumes "resolve w (A1Range t (Some 65) sr (Some lc) er) = Some (c0, wd, r0, ht)"
  shows "t = tabTitle w \<and> 65 \<le> lc \<and> lc \<le> 90 \<and> c0 = 0 \<and> wd = Some (lc - 64) \<and>
         row_span sr er = Some (r0, ht)"
  using assms
  by (auto simp: resolve_def col_number_def split: if_splits option.splits)

lemma resolve_from_A:
  assumes "1 \<le> n" and "n \<le> 26" and "row_span sr er = Some (r0, ht)"
  shows "resolve w (A1Range (tabTitle w) (Some 65) sr (Some (64 + n)) er) = Some (0, Some n, r0, ht)"
  using assms by (simp add: resolve_def col_number_def)

subsection \<open>The header cache\<close>

lemma loadColumnHeaders_frame:
  assumes "loadColumnHeaders s w = (r, s', w')"
  shows "grid w' = grid w \<and> tabTitle w' = tabTitle w \<and> entered w' = entered w \<and>
         (case r of Inl e \<Rightarrow> s' = s | Inr hs \<Rightarrow> s' = s\<lparr>columnHeaders := Some hs\<rparr>)"
  using assms
  by (auto simp: loadColumnHeaders_def Let_def split: if_splits prod.splits sum.splits
           dest: values_get_frame)

lemma getColumnHeaders_frame:
  assumes "getColumnHeaders s w = (r, s', w')"
  shows "grid w' = grid w \<and> tabTitle w' = tabTitle w \<and> entered w' = entered w \<and>
         (case r of Inl e \<Rightarrow> s' = s | Inr hs \<Rightarrow> s' = s\<lparr>columnHeaders := Some hs\<rparr>)"
proof (cases "columnHeaders s")
  case None
  then show ?thesis using assms loadColumnHeaders_frame by (simp add: getColumnHeaders_def)
next
  case (Some hs)
  then show ?thesis using assms by (auto simp: getColumnHeaders_def)
qed

lemma getColumnHeaders_cached:
  "columnHeaders s = Some hs \<Longrightarrow> getColumnHeaders s w = (Inr hs, s, w)"
  by (simp add: getColumnHeaders_def)

lemma getColumnHeaders_requests:
  assumes "getColumnHeaders s w = (r, s', w')"
  shows "requests w' = requests w \<or>
         requests w' = requests w @ [Get (A1Range (title_text (sheetTitle s)) None (Some 1) None (Some 1))]"
  using assms
  by (auto simp: getColumnHeaders_def loadColumnHeaders_def Let_def
           split: option.splits if_splits prod.splits sum.splits dest: values_get_frame)

text \<open>
  After a successful \<open>initialize\<close> on a reachable sheet whose header row holds between 1
  and 26 names, the adapter is ready with that header row as its schema.
\<close>

lemma initialize_ready:
  assumes "outages w = []" and "tabTitle w \<noteq> []"
    and "select (grid w) (0, None, 0, Some 1) = [hs]" and "1 \<le> length hs" and "length hs \<le> 26"
  shows "\<exists>s' w'. initialize s w = (Inr (), s', w') \<and> ready s' w' hs \<and> grid w' = grid w"
proof -
  let ?w1 = "w\<lparr>clock := Suc (clock w), requests := requests w @ [GetSpreadsheet]\<rparr>"
  let ?s2 = "s\<lparr>sheets := True, sheetTitle := Some (tabTitle w)\<rparr>"
  let ?rng = "A1Range (tabTitle w) None (Some 1) None (Some 1)"
  let ?w2 = "?w1\<lparr>clock := Suc (clock ?w1), requests := requests ?w1 @ [Get ?rng]\<rparr>"
  have rc: "remote_call GetSpreadsheet w = (True, ?w1)" using assms(1) by (rule remote_call_ok)
  have o1: "outages ?w1 = []" using assms(1) by simp
  have "resolve ?w1 ?rng = Some (0, None, 0, Some 1)" by (simp add: resolve_def)
  from values_get_ok [OF o1 this]
  have v: "values_get ?rng ?w1 = (Inr (Some [hs]), ?w2)" using assms(3) by simp
  have l: "loadColumnHeaders ?s2 ?w1 = (Inr hs, ?s2\<lparr>columnHeaders := Some hs\<rparr>, ?w2)"
    using v by (simp add: loadColumnHeaders_def title_text_def)
  have "initialize s w = (Inr (), ?s2\<lparr>columnHeaders := Some hs\<rparr>, ?w2)"
    using rc l by (simp add: initialize_def)
  moreover have "ready (?s2\<lparr>columnHeaders := Some hs\<rparr>) ?w2 hs"
    using assms by (simp add: ready_def)
  moreover have "grid ?w2 = grid w" by simp
  ultimately show ?thesis by blast
qed

subsection \<open>A failed sync\<close>

text \<open>
  Claim C6, amended. A sync that fails leaves the time of the last sync as it was, and
  a sync that succeeds sets it to the time the read completed. A failed sync leaves the
  whole state of the adapter as it was, except that a header cache that was empty may
  have been filled with the header row just loaded; a cached schema is never erased or
  replaced by a sync. The adapter keeps no record list of its own: \<open>syncSheet\<close> returns
  the complete list of one read or fails. The sheet is not written in either case.
\<close>

theorem syncSheet_all_or_nothing:
  assumes "syncSheet s w = (r, s', w')"
  shows "(case r of
            Inl e \<Rightarrow>
              lastSyncTime s' = lastSyncTime s \<and>
              (s' = s \<or>
               (columnHeaders s = None \<and>
                (\<exists>hs. fst (loadColumnHeaders s w) = Inr hs \<and> s' = s\<lparr>columnHeaders := Some hs\<rparr>)))
          | Inr recs \<Rightarrow>
              lastSyncTime s' = Some (clock w') \<and>
              (\<exists>hs. s' = s\<lparr>columnHeaders := Some hs, lastSyncTime := Some (clock w')\<rparr>)) \<and>
         (\<forall>hs. columnHeaders s = Some hs \<longrightarrow> columnHeaders s' = Some hs) \<and>
         grid w' = grid w"
proof (cases "not_initialized s")
  case True
  then show ?thesis using assms by (auto simp: syncSheet_def)
next
  case False
  obtain r1 s1 w1 where g: "getColumnHeaders s w = (r1, s1, w1)"
    by (cases "getColumnHeaders s w") auto
  note fr = getColumnHeaders_frame [OF g]
  show ?thesis
  proof (cases r1)
    case (Inl e)
    then have "r = Inl e" "s' = s" "w' = w1"
      using assms False g fr by (auto simp: syncSheet_def)
    then show ?thesis using fr by simp
  next
    case (Inr hs)
    have s1: "s1 = s\<lparr>columnHeaders := Some hs\<rparr>" and g1: "grid w1 = grid w"
      using fr Inr by simp_all
    have kept: "columnHeaders s = Some hs'' \<longrightarrow> hs'' = hs" for hs''
      using g Inr by (auto simp: getColumnHeaders_def)
    have loaded: "columnHeaders s = None \<longrightarrow> fst (loadColumnHeaders s w) = Inr hs"
      using g Inr by (auto simp: getColumnHeaders_def)
    have same: "columnHeaders s \<noteq> None \<longrightarrow> s1 = s"
      using s1 kept by auto
    let ?rng = "A1Range (title_text (sheetTitle s1)) (Some 65) (Some 2)
                  (Some (fromCharCode (65 + int (length hs) - 1))) None"
    obtain r2 w2 where v: "values_get ?rng w1 = (r2, w2)"
      by (cases "values_get ?rng w1") auto
    note vf = values_get_frame [OF v]
    show ?thesis
    proof (cases r2)
      case (Inl e)
      then have "r = Inl e" "s' = s1" "w' = w2"
        using assms False g Inr v by (auto simp: syncSheet_def Let_def)
      then show ?thesis using s1 g1 vf kept loaded same by auto
    next
      case (Inr vals)
      then have "\<exists>recs. r = Inr recs" "s' = s1\<lparr>lastSyncTime := Some (clock w2)\<rparr>" "w' = w2"
        using assms False g \<open>r1 = Inr hs\<close> v by (auto simp: syncSheet_def Let_def)
      then show ?thesis using s1 g1 vf kept by auto
    qed
  qed
qed

theorem syncSheet_all_or_nothing_witness:
  "fst (syncSheet
     \<lparr>sheets = True, sheetTitle = Some ''Sheet1'', columnHeaders = Some [''Post ID'', ''Status''],
        lastSyncTime = Some 7\<rparr>
     \<lparr>tabTitle = ''Sheet1'', grid = [[''Post ID'', ''Status''], [''p1'', ''Draft'']],
        entered = (\<lambda>r c s. s), clock = 9, outages = [True], requests = []\<rparr>) = Inl RemoteError \<and>
   fst (snd (syncSheet
     \<lparr>sheets = True, sheetTitle = Some ''Sheet1'', columnHeaders = Some [''Post ID'', ''Status''],
        lastSyncTime = Some 7\<rparr>
     \<lparr>tabTitle = ''Sheet1'', grid = [[''Post ID'', ''Status''], [''p1'', ''Draft'']],
        entered = (\<lambda>r c s. s), clock = 9, outages = [True], requests = []\<rparr>)) =
     \<lparr>sheets = True, sheetTitle = Some ''Sheet1'', columnHeaders = Some [''Post ID'', ''Status''],
        lastSyncTime = Some 7\<rparr>"
proof -
  let ?s = "\<lparr>sheets = True, sheetTitle = Some ''Sheet1'',
             columnHeaders = Some [''Post ID'', ''Status''], lastSyncTime = Some 7\<rparr>"
  let ?w = "\<lparr>tabTitle = ''Sheet1'', grid = [[''Post ID'', ''Status''], [''p1'', ''Draft'']],
             entered = (\<lambda>r c s. s), clock = 9, outages = [True], requests = []\<rparr>"
  have run: "fst (syncSheet ?s ?w) = Inl RemoteError"
    by (simp add: syncSheet_def not_initialized_def getColumnHeaders_def title_text_def
                  fromCharCode_def values_get_def remote_call_def)
  then obtain s' w' where res: "syncSheet ?s ?w = (Inl RemoteError, s', w')"
    by (cases "syncSheet ?s ?w") auto
  from syncSheet_all_or_nothing [OF res] have "s' = ?s" by simp
  with run res show ?thesis by simp
qed

text \<open>
  Claim C6 as stated fails: the adapter holds no snapshot that a failed sync could
  leave in place. After a completed sync, the next listing of the records is again a
  sync, and when the store is unreachable it yields the error, not the records of the
  completed sync.
\<close>

theorem failed_sync_serves_no_snapshot:
  "fst (syncSheet example_service (example_world\<lparr>outages := [False, True]\<rparr>)) =
     Inr [(object [''Post ID'' \<mapsto> JStr ''a'', ''Status'' \<mapsto> JStr ''Draft'']),
          (object [''Post ID'' \<mapsto> JStr ''b'', ''Status'' \<mapsto> JStr ''Approved''])] \<and>
   fst (syncSheet
          (fst (snd (syncSheet example_service (example_world\<lparr>outages := [False, True]\<rparr>))))
          (snd (snd (syncSheet example_service (example_world\<lparr>outages := [False, True]\<rparr>))))) =
     Inl RemoteError"
  by (simp add: example_service_def example_world_def eval_defs)

subsection \<open>What a write changes\<close>

lemma cell_pad: "cell (g @ replicate k []) r c = cell g r c"
  by (auto simp: cell_def nth_append)

lemma cell_update_row:
  "r < length g \<Longrightarrow>
     cell (g[r := map f [0..<wd]]) r' c =
       (if r' = r then (if c < wd then f c else []) else cell g r' c)"
  by (simp add: cell_def)

lemma cell_beyond: "length (g ! r) \<le> c \<Longrightarrow> cell g r c = []"
  by (simp add: cell_def)

lemma cell_write_cells:
  "cell (write_cells ent g r c0 vs) r' c' =
     (if r' = r \<and> c0 \<le> c' \<and> c' < c0 + length vs
      then (case to_json (vs ! (c' - c0)) of JsonString t \<Rightarrow> store_text (ent r c') t | _ \<Rightarrow> cell g r c')
      else cell g r' c')"
proof -
  let ?g1 = "g @ replicate (Suc r - length g) []"
  let ?wd = "max (length (?g1 ! r)) (c0 + length vs)"
  let ?f = "\<lambda>c. if c0 \<le> c \<and> c < c0 + length vs
                 then (case to_json (vs ! (c - c0)) of JsonString s \<Rightarrow> store_text (ent r c) s | _ \<Rightarrow> cell g r c)
                 else cell g r c"
  have w: "write_cells ent g r c0 vs = ?g1[r := map ?f [0..<?wd]]"
    by (simp add: write_cells_def Let_def)
  have r: "r < length ?g1" by simp
  have c: "cell (write_cells ent g r c0 vs) r' c' =
           (if r' = r then (if c' < ?wd then ?f c' else []) else cell ?g1 r' c')"
    unfolding w by (rule cell_update_row [OF r])
  have pad: "cell ?g1 r' c' = cell g r' c'" by (rule cell_pad)
  show ?thesis
  proof (cases "r' = r \<and> \<not> c' < ?wd")
    case False
    then show ?thesis unfolding c pad by auto
  next
    case True
    then have m: "length (?g1 ! r) \<le> c' \<and> c0 + length vs \<le> c'"
      unfolding not_less max.bounded_iff by blast
    then have 1: "\<not> (c0 \<le> c' \<and> c' < c0 + length vs)" by linarith
    have "length (?g1 ! r) \<le> c'" using m by blast
    then have "cell ?g1 r c' = []" by (rule cell_beyond)
    then have 2: "cell g r c' = []" by (simp only: cell_pad)
    show ?thesis unfolding c using True 1 2 by auto
  qed
qed

lemma length_write_cells: "length (write_cells ent g r c0 vs) = max (length g) (Suc r)"
  by (simp add: write_cells_def Let_def)

subsection \<open>Finding a row\<close>

lemma findIndex_from_Some:
  "findIndex_from i p xs = Some k \<Longrightarrow>
     i \<le> k \<and> k < i + length xs \<and> p (xs ! (k - i)) k \<and>
     (\<forall>j. i \<le> j \<and> j < k \<longrightarrow> \<not> p (xs ! (j - i)) j)"
proof (induction xs arbitrary: i)
  case Nil
  then show ?case by simp
next
  case (Cons x xs)
  show ?case
  proof (cases "p x i")
    case True
    then show ?thesis using Cons.prems by auto
  next
    case False
    then have "findIndex_from (Suc i) p xs = Some k" using Cons.prems by simp
    from Cons.IH [OF this] have ih: "Suc i \<le> k" "k < Suc i + length xs" "p (xs ! (k - Suc i)) k"
      "\<And>j. Suc i \<le> j \<Longrightarrow> j < k \<Longrightarrow> \<not> p (xs ! (j - Suc i)) j" by auto
    have "\<not> p ((x # xs) ! (j - i)) j" if "i \<le> j" "j < k" for j
    proof (cases "j = i")
      case True
      then show ?thesis using False by simp
    next
      case False
      then have "Suc i \<le> j" using that by simp
      then show ?thesis using ih(4) [of j] that by (simp add: Suc_diff_le)
    qed
    moreover have "p ((x # xs) ! (k - i)) k" using ih(1,3) by (simp add: Suc_diff_le)
    ultimately show ?thesis using ih(1,2) by auto
  qed
qed

lemma findIndex_from_None:
  "findIndex_from i p xs = None \<longleftrightarrow> (\<forall>j < length xs. \<not> p (xs ! j) (i + j))"
proof (induction xs arbitrary: i)
  case Nil
  then show ?case by simp
next
  case (Cons x xs)
  show ?case
  proof (cases "p x i")
    case True
    then show ?thesis by auto
  next
    case False
    have "(\<forall>j < length (x # xs). \<not> p ((x # xs) ! j) (i + j)) \<longleftrightarrow>
          (\<forall>j < length xs. \<not> p (xs ! j) (Suc i + j))"
      using False by (auto simp: less_Suc_eq_0_disj)
    then show ?thesis using False Cons.IH [of "Suc i"] by simp
  qed
qed

lemma findIndex_Some:
  "findIndex p xs = Some k \<Longrightarrow>
     k < length xs \<and> p (xs ! k) k \<and> (\<forall>j < k. \<not> p (xs ! j) j)"
  unfolding findIndex_def using findIndex_from_Some [of 0 p xs k] by simp

lemma findIndex_None: "findIndex p xs = None \<longleftrightarrow> (\<forall>j < length xs. \<not> p (xs ! j) j)"
  unfolding findIndex_def using findIndex_from_None [of 0 p xs] by simp

lemma findIndex_first:
  assumes "k < length xs" and "p (xs ! k) k" and "\<forall>j < k. \<not> p (xs ! j) j"
  shows "findIndex p xs = Some k"
proof (cases "findIndex p xs")
  case None
  then show ?thesis using assms findIndex_None [of p xs] by auto
next
  case (Some k')
  from findIndex_Some [OF Some] have "k' < length xs" "p (xs ! k') k'" "\<forall>j < k'. \<not> p (xs ! j) j"
    by auto
  then have "k' = k" using assms by (meson nat_neq_iff)
  then show ?thesis using Some by simp
qed

lemma find_first:
  "k < length xs \<Longrightarrow> P (xs ! k) \<Longrightarrow> (\<forall>j < k. \<not> P (xs ! j)) \<Longrightarrow> find P xs = Some (xs ! k)"
proof (induction xs arbitrary: k)
  case Nil
  then show ?case by simp
next
  case (Cons x xs)
  show ?case
  proof (cases k)
    case 0
    then show ?thesis using Cons.prems by simp
  next
    case (Suc k')
    have "\<not> P x" using Cons.prems(3) Suc by auto
    moreover have "find P xs = Some (xs ! k')"
      using Cons.prems Suc by (intro Cons.IH) auto
    ultimately show ?thesis using Suc by simp
  qed
qed

subsection \<open>A successful update, step by step\<close>

lemma not_initialized_title:
  "\<not> not_initialized s \<Longrightarrow>
     sheets s \<and> sheetTitle s = Some (title_text (sheetTitle s)) \<and> title_text (sheetTitle s) \<noteq> []"
  by (auto simp: not_initialized_def title_text_def split: option.splits)

lemma updateContent_Inr:
  assumes "updateContent pid u s w = (Inr ok, s', w')"
  shows "\<exists>hs w1 vals w2 k x.
      \<not> not_initialized s \<and> getColumnHeaders s w = (Inr hs, s', w1) \<and>
      values_get (A1Range (title_text (sheetTitle s')) (Some 65) None
                    (Some (fromCharCode (65 + int (length hs) - 1))) None) w1 = (Inr vals, w2) \<and>
      findIndex (\<lambda>row index. index > 0 \<and> at_index row 0 = pid) (values_or_empty vals) = Some k \<and>
      values_update (A1Range (title_text (sheetTitle s')) (Some 65) (Some (k + 1))
                       (Some (fromCharCode (65 + int (length hs) - 1))) (Some (k + 1)))
                    [newRowData hs u (values_or_empty vals ! k)] w2 = (Inr x, w') \<and>
      ok = True"
  using assms
  by (auto simp: updateContent_def Let_def split: if_splits prod.splits sum.splits option.splits)

lemma updateContent_success:
  assumes "updateContent pid u s w = (Inr ok, s', w')"
  shows "\<exists>hs k pre.
      ok = True \<and> s' = s\<lparr>columnHeaders := Some hs\<rparr> \<and> sheetTitle s = Some (tabTitle w) \<and>
      1 \<le> length hs \<and> length hs \<le> 26 \<and>
      findIndex (\<lambda>row index. index > 0 \<and> at_index row 0 = pid)
                (select (grid w) (0, Some (length hs), 0, None)) = Some k \<and>
      grid w' = write_cells (entered w) (grid w) k 0
                   (newRowData hs u (select (grid w) (0, Some (length hs), 0, None) ! k)) \<and>
      (pre = [] \<or> pre = [Get (A1Range (tabTitle w) None (Some 1) None (Some 1))]) \<and>
      requests w' = requests w @ pre @
         [Get (A1Range (tabTitle w) (Some 65) None (Some (64 + length hs)) None),
          Update (A1Range (tabTitle w) (Some 65) (Some (k + 1)) (Some (64 + length hs)) (Some (k + 1)))
                 [newRowData hs u (select (grid w) (0, Some (length hs), 0, None) ! k)]]"
proof -
  from updateContent_Inr [OF assms] obtain hs w1 vals w2 k x where
    init: "\<not> not_initialized s" and
    g: "getColumnHeaders s w = (Inr hs, s', w1)" and
    v: "values_get (A1Range (title_text (sheetTitle s')) (Some 65) None
                    (Some (fromCharCode (65 + int (length hs) - 1))) None) w1 = (Inr vals, w2)" and
    f: "findIndex (\<lambda>row index. index > 0 \<and> at_index row 0 = pid) (values_or_empty vals) = Some k" and
    u: "values_update (A1Range (title_text (sheetTitle s')) (Some 65) (Some (k + 1))
                       (Some (fromCharCode (65 + int (length hs) - 1))) (Some (k + 1)))
                    [newRowData hs u (values_or_empty vals ! k)] w2 = (Inr x, w')" and
    ok: "ok = True"
    by blast
  let ?t = "title_text (sheetTitle s')"
  let ?lc = "fromCharCode (65 + int (length hs) - 1)"
  let ?n = "length hs"
  from getColumnHeaders_frame [OF g]
  have g1: "grid w1 = grid w" "tabTitle w1 = tabTitle w" "s' = s\<lparr>columnHeaders := Some hs\<rparr>"
    and e1: "entered w1 = entered w"
    by auto
  then have t: "sheetTitle s' = sheetTitle s" by simp
  from values_get_frame [OF v]
  have g2: "grid w2 = grid w1" "tabTitle w2 = tabTitle w1"
    "requests w2 = requests w1 @ [Get (A1Range ?t (Some 65) None (Some ?lc) None)]"
    and e2: "entered w2 = entered w1"
    by auto
  from values_get_Inr [OF v] obtain c0 wd r0 ht where
    r1: "resolve w1 (A1Range ?t (Some 65) None (Some ?lc) None) = Some (c0, wd, r0, ht)" and
    rows1: "values_or_empty vals = select (grid w1) (c0, wd, r0, ht)"
    by (metis prod_cases4)
  from resolve_columns [OF r1]
  have b1: "?t = tabTitle w1" "65 \<le> ?lc" "?lc \<le> 90" "c0 = 0" "wd = Some (?lc - 64)"
    "r0 = 0" "ht = None"
    by auto
  from values_update_Inr [OF u] obtain c0' wd' r0' ht' where
    r2: "resolve w2 (A1Range ?t (Some 65) (Some (k + 1)) (Some ?lc) (Some (k + 1))) =
           Some (c0', wd', r0', ht')" and
    fit: "fits wd' (length (newRowData hs u (values_or_empty vals ! k)))" and
    gw: "grid w' = write_rows (entered w2) (grid w2) r0' c0' [newRowData hs u (values_or_empty vals ! k)]"
    by auto
  from resolve_columns [OF r2]
  have b2: "c0' = 0" "wd' = Some (?lc - 64)" "r0' = k"
    by auto
  have "?n \<le> ?lc - 64" using fit b2 by (simp add: newRowData_length)
  then have n26: "?n \<le> 26" using b1(3) by simp
  then have lc: "?lc = 64 + ?n" by (rule lastCol_letter)
  then have n1: "1 \<le> ?n" using b1(2) by simp
  have title: "sheetTitle s = Some (tabTitle w)"
    using not_initialized_title [OF init] b1(1) g1(2) t by simp
  then have tt: "?t = tabTitle w" using t by (simp add: title_text_def)
  have rows: "values_or_empty vals = select (grid w) (0, Some ?n, 0, None)"
    using rows1 b1 lc g1 by simp
  have grid: "grid w' = write_cells (entered w) (grid w) k 0
                (newRowData hs u (select (grid w) (0, Some ?n, 0, None) ! k))"
    using gw b2 g2 g1 rows e1 e2 by simp
  from getColumnHeaders_requests [OF g] obtain pre where
    pre: "pre = [] \<or> pre = [Get (A1Range (tabTitle w) None (Some 1) None (Some 1))]"
      "requests w1 = requests w @ pre"
    using title by (auto simp: title_text_def)
  have "requests w' = requests w2 @
          [Update (A1Range ?t (Some 65) (Some (k + 1)) (Some ?lc) (Some (k + 1)))
                  [newRowData hs u (values_or_empty vals ! k)]]"
    using values_update_frame [OF u] by simp
  then have rq: "requests w' = requests w @ pre @
         [Get (A1Range (tabTitle w) (Some 65) None (Some (64 + ?n)) None),
          Update (A1Range (tabTitle w) (Some 65) (Some (k + 1)) (Some (64 + ?n)) (Some (k + 1)))
                 [newRowData hs u (select (grid w) (0, Some ?n, 0, None) ! k)]]"
    using g2(3) pre(2) tt lc rows by simp
  from ok g1(3) title n1 n26 f [unfolded rows] grid pre(1) rq show ?thesis by blast
qed

lemma select_first_cell:
  assumes "j < length (select g (0, Some n, r0, None))"
    and "at_index (select g (0, Some n, r0, None) ! j) 0 = JStr t"
  shows "cell g (r0 + j) 0 = t"
proof -
  have j: "r0 + j < length g" using assms(1) select_length [of g n r0] by simp
  have "at_index (trim_row (take n (g ! (r0 + j)))) 0 = JStr t"
    using assms(2) by (simp only: select_nth [OF assms(1)])
  from at_index_trim_row [OF this]
  have "0 < length (take n (g ! (r0 + j)))" "take n (g ! (r0 + j)) ! 0 = t" by auto
  then show ?thesis using j by (auto simp: cell_def)
qed

lemma select_first_cell_conv:
  assumes "j < length (select g (0, Some n, r0, None))" and "1 \<le> n" and "t \<noteq> []"
    and "cell g (r0 + j) 0 = t"
  shows "at_index (select g (0, Some n, r0, None) ! j) 0 = JStr t"
proof -
  have "js_or (at_index (select g (0, Some n, r0, None) ! j) 0) JNull = JStr t"
    using assms by (simp only: select_cell [OF assms(1)]) simp
  then show ?thesis by (auto simp: js_or_def split: if_splits)
qed

subsection \<open>The row an update builds\<close>

text \<open>
  For each schema column, the row built by \<open>updateContent\<close> takes what the property
  read \<open>updates[header]\<close> yields when that is not \<open>undefined\<close> (text, the empty text,
  \<open>null\<close>, or a value inherited from \<open>Object.prototype\<close>), otherwise the cell of the
  existing row when that cell is non-blank, otherwise the empty text. Two payloads whose
  property reads agree on every schema column build the same row. The row that a
  successful update sends is the row built from the schema, the payload and the located
  row of the fresh read.
\<close>

lemma newRowData_merges_patch:
  "length (newRowData headers updates existingData) = length headers \<and>
   (\<forall>i < length headers.
      newRowData headers updates existingData ! i =
        (if prop_of updates (headers ! i) \<noteq> JUndefined then prop_of updates (headers ! i)
         else if truthy (at_index existingData i) then at_index existingData i
         else JStr [])) \<and>
   (\<forall>updates'. (\<forall>h \<in> set headers. prop_of updates' h = prop_of updates h) \<longrightarrow>
      newRowData headers updates' existingData = newRowData headers updates existingData) \<and>
   (updateContent pid updates s w = (Inr ok, s', w') \<longrightarrow>
      (\<exists>hs k rng.
         columnHeaders s' = Some hs \<and>
         findIndex (\<lambda>row index. index > 0 \<and> at_index row 0 = pid)
                   (select (grid w) (0, Some (length hs), 0, None)) = Some k \<and>
         last (requests w') =
           Update rng [newRowData hs updates (select (grid w) (0, Some (length hs), 0, None) ! k)]))"
proof (intro conjI allI impI)
  show "length (newRowData headers updates existingData) = length headers"
    by (rule newRowData_length)
next
  fix i assume "i < length headers"
  then show "newRowData headers updates existingData ! i =
        (if prop_of updates (headers ! i) \<noteq> JUndefined then prop_of updates (headers ! i)
         else if truthy (at_index existingData i) then at_index existingData i
         else JStr [])"
    by (simp add: newRowData_nth js_or_def)
next
  fix updates' assume "\<forall>h \<in> set headers. prop_of updates' h = prop_of updates h"
  then show "newRowData headers updates' existingData = newRowData headers updates existingData"
    unfolding newRowData_def by (rule map_headers_cong)
next
  assume "updateContent pid updates s w = (Inr ok, s', w')"
  from updateContent_success [OF this] obtain hs k pre where
    s': "s' = s\<lparr>columnHeaders := Some hs\<rparr>" and
    f: "findIndex (\<lambda>row index. index > 0 \<and> at_index row 0 = pid)
                (select (grid w) (0, Some (length hs), 0, None)) = Some k" and
    rq: "requests w' = requests w @ pre @
         [Get (A1Range (tabTitle w) (Some 65) None (Some (64 + length hs)) None),
          Update (A1Range (tabTitle w) (Some 65) (Some (k + 1)) (Some (64 + length hs)) (Some (k + 1)))
                 [newRowData hs updates (select (grid w) (0, Some (length hs), 0, None) ! k)]]"
    by blast
  have "columnHeaders s' = Some hs" using s' by simp
  moreover have "last (requests w') =
          Update (A1Range (tabTitle w) (Some 65) (Some (k + 1)) (Some (64 + length hs)) (Some (k + 1)))
                 [newRowData hs updates (select (grid w) (0, Some (length hs), 0, None) ! k)]"
    unfolding rq by simp
  ultimately show "\<exists>hs k rng.
         columnHeaders s' = Some hs \<and>
         findIndex (\<lambda>row index. index > 0 \<and> at_index row 0 = pid)
                   (select (grid w) (0, Some (length hs), 0, None)) = Some k \<and>
         last (requests w') =
           Update rng [newRowData hs updates (select (grid w) (0, Some (length hs), 0, None) ! k)]"
    using f by blast
qed

lemma newRowData_merges_patch_example:
  "newRowData [''Post ID'', ''Status'', ''Topic'', ''Platform'']
       (object [''Status'' \<mapsto> JStr ''Approved'', ''Topic'' \<mapsto> JNull, ''Colour'' \<mapsto> JStr ''red''])
       [''p1'', ''Draft'', ''Cats''] ! 0 = JStr ''p1'' \<and>
   newRowData [''Post ID'', ''Status'', ''Topic'', ''Platform'']
       (object [''Status'' \<mapsto> JStr ''Approved'', ''Topic'' \<mapsto> JNull, ''Colour'' \<mapsto> JStr ''red''])
       [''p1'', ''Draft'', ''Cats''] ! 1 = JStr ''Approved'' \<and>
   newRowData [''Post ID'', ''Status'', ''Topic'', ''Platform'']
       (object [''Status'' \<mapsto> JStr ''Approved'', ''Topic'' \<mapsto> JNull, ''Colour'' \<mapsto> JStr ''red''])
       [''p1'', ''Draft'', ''Cats''] ! 2 = JNull \<and>
   newRowData [''Post ID'', ''Status'', ''Topic'', ''Platform'']
       (object [''Status'' \<mapsto> JStr ''Approved'', ''Topic'' \<mapsto> JNull, ''Colour'' \<mapsto> JStr ''red''])
       [''p1'', ''Draft'', ''Cats''] ! 3 = JStr [] \<and>
   newRowData [''Post ID'', ''Status'', ''Topic'', ''Platform'']
       (object [''Status'' \<mapsto> JStr ''Approved'', ''Topic'' \<mapsto> JNull])
       [''p1'', ''Draft'', ''Cats''] =
   newRowData [''Post ID'', ''Status'', ''Topic'', ''Platform'']
       (object [''Status'' \<mapsto> JStr ''Approved'', ''Topic'' \<mapsto> JNull, ''Colour'' \<mapsto> JStr ''red''])
       [''p1'', ''Draft'', ''Cats'']"
proof -
  let ?hs = "[''Post ID'', ''Status'', ''Topic'', ''Platform'']"
  let ?u = "(object [''Status'' \<mapsto> JStr ''Approved'', ''Topic'' \<mapsto> JNull, ''Colour'' \<mapsto> JStr ''red''])"
  let ?u' = "(object [''Status'' \<mapsto> JStr ''Approved'', ''Topic'' \<mapsto> JNull])"
  let ?e = "[''p1'', ''Draft'', ''Cats'']"
  note t = newRowData_merges_patch [of ?hs ?u ?e]
  note cells = t [THEN conjunct2, THEN conjunct1, rule_format]
  note same = t [THEN conjunct2, THEN conjunct2, THEN conjunct1, THEN spec, THEN mp]
  have c0: "newRowData ?hs ?u ?e ! 0 = JStr ''p1''"
    using cells [of 0] by (simp add: prop_of_def prototype_methods_def truthy_def at_index_def)
  have c1: "newRowData ?hs ?u ?e ! 1 = JStr ''Approved''"
    using cells [of 1] by (simp add: prop_of_def prototype_methods_def truthy_def at_index_def)
  have c2: "newRowData ?hs ?u ?e ! 2 = JNull"
    using cells [of 2] by (simp add: prop_of_def prototype_methods_def truthy_def at_index_def)
  have c3: "newRowData ?hs ?u ?e ! 3 = JStr []"
    using cells [of 3] by (simp add: prop_of_def prototype_methods_def truthy_def at_index_def)
  have "\<forall>h \<in> set ?hs. prop_of ?u' h = prop_of ?u h"
    by (simp add: prop_of_def prototype_methods_def)
  then have c4: "newRowData ?hs ?u' ?e = newRowData ?hs ?u ?e"
    by (rule same)
  from c0 c1 c2 c3 c4 show ?thesis by blast
qed

text \<open>
  A column named like a method of \<open>Object.prototype\<close> that the payload does not give:
  the property read finds the inherited method, which is not \<open>undefined\<close>, so the
  method and not the existing cell goes into the row (and is sent as \<open>null\<close>).
\<close>

lemma newRowData_inherited_property:
  "newRowData [''Post ID'', ''constructor''] (object Map.empty) [''b'', ''x''] =
     [JStr ''b'', JFunction ''constructor''] \<and>
   to_json (JFunction ''constructor'') = JsonNull"
  by (simp add: newRowData_def prop_of_def prototype_methods_def js_or_def truthy_def
                at_index_def to_json_def)

text \<open>
  Claim C8 fails on the code for a payload that gives a schema field as \<open>null\<close>. The
  row built does hold \<open>null\<close> for that column, and it is sent as it is; the store skips
  a \<open>null\<close> entry, so the field is not cleared: the cell still shows \<open>Approved\<close> and a
  read after the update returns it. The same update with the empty text clears the
  cell.
\<close>

theorem updateContent_null_does_not_clear_field:
  "newRowData [''Post ID'', ''Status''] (object [''Status'' \<mapsto> JNull]) [''b'', ''Approved''] =
     [JStr ''b'', JNull] \<and>
   updateContent (JStr ''b'') (object [''Status'' \<mapsto> JNull]) example_service example_world =
     (Inr True, example_service,
      example_world\<lparr>clock := 2,
        requests := [Get (A1Range ''Sheet1'' (Some 65) None (Some 66) None),
                     Update (A1Range ''Sheet1'' (Some 65) (Some 3) (Some 66) (Some 3))
                            [[JStr ''b'', JNull]]]\<rparr>) \<and>
   cell (grid example_world) 2 1 = ''Approved'' \<and>
   read_update_read (JStr ''b'') (object [''Status'' \<mapsto> JNull]) example_service example_world =
     (Inr (Some (object [''Post ID'' \<mapsto> JStr ''b'', ''Status'' \<mapsto> JStr ''Approved''])),
      Inr True,
      Inr (Some (object [''Post ID'' \<mapsto> JStr ''b'', ''Status'' \<mapsto> JStr ''Approved'']))) \<and>
   grid (snd (snd (updateContent (JStr ''b'') (object [''Status'' \<mapsto> JStr []])
                     example_service example_world))) =
     [[''Post ID'', ''Status''], [''a'', ''Draft''], [''b'', []]]"
  by (simp add: example_service_def example_world_def eval_defs)

subsection \<open>The write of an update\<close>

text \<open>
  A successful \<open>updateContent\<close> issues exactly one write, after its reads: the range of
  the write starts and ends at the row number of the located row (its index \<open>k\<close> in
  the fresh read, which starts at row 1, plus one), starts at column \<open>A\<close> (column 1)
  and ends at the column letter number \<open>n\<close>, where \<open>n\<close> is the number of schema
  columns; the row written holds exactly \<open>n\<close> values. The store resolves this range to
  the box of width \<open>n\<close> and height 1 at that row. An update can only succeed when
  \<open>1 \<le> n \<le> 26\<close>.
\<close>

lemma updateContent_writes_located_row:
  assumes "updateContent pid updates s w = (Inr ok, s', w')"
  shows "\<exists>hs k row pre.
      columnHeaders s' = Some hs \<and>
      findIndex (\<lambda>row index. index > 0 \<and> at_index row 0 = pid)
                (select (grid w) (0, Some (length hs), 0, None)) = Some k \<and>
      requests w' = requests w @ pre @
         [Update (A1Range (tabTitle w) (Some 65) (Some (k + 1)) (Some (64 + length hs)) (Some (k + 1)))
                 [row]] \<and>
      (\<forall>rq \<in> set pre. \<exists>rng. rq = Get rng) \<and>
      length row = length hs \<and>
      col_number 65 = Some 1 \<and> col_number (64 + length hs) = Some (length hs) \<and>
      resolve w (A1Range (tabTitle w) (Some 65) (Some (k + 1)) (Some (64 + length hs)) (Some (k + 1)))
        = Some (0, Some (length hs), k, Some 1) \<and>
      1 \<le> length hs \<and> length hs \<le> 26"
proof -
  from updateContent_success [OF assms] obtain hs k pre where
    s': "s' = s\<lparr>columnHeaders := Some hs\<rparr>" and
    n: "1 \<le> length hs" "length hs \<le> 26" and
    f: "findIndex (\<lambda>row index. index > 0 \<and> at_index row 0 = pid)
                (select (grid w) (0, Some (length hs), 0, None)) = Some k" and
    pre: "pre = [] \<or> pre = [Get (A1Range (tabTitle w) None (Some 1) None (Some 1))]" and
    rq: "requests w' = requests w @ pre @
         [Get (A1Range (tabTitle w) (Some 65) None (Some (64 + length hs)) None),
          Update (A1Range (tabTitle w) (Some 65) (Some (k + 1)) (Some (64 + length hs)) (Some (k + 1)))
                 [newRowData hs updates (select (grid w) (0, Some (length hs), 0, None) ! k)]]"
    by blast
  let ?row = "newRowData hs updates (select (grid w) (0, Some (length hs), 0, None) ! k)"
  let ?pre = "pre @ [Get (A1Range (tabTitle w) (Some 65) None (Some (64 + length hs)) None)]"
  have 1: "columnHeaders s' = Some hs" using s' by simp
  have 2: "requests w' = requests w @ ?pre @
         [Update (A1Range (tabTitle w) (Some 65) (Some (k + 1)) (Some (64 + length hs)) (Some (k + 1)))
                 [?row]]"
    using rq by simp
  have 3: "\<forall>rq \<in> set ?pre. \<exists>rng. rq = Get rng" using pre by auto
  have 4: "length ?row = length hs" by (rule newRowData_length)
  have 5: "col_number 65 = Some 1" "col_number (64 + length hs) = Some (length hs)"
    using n by (simp_all add: col_number_def)
  have 6: "resolve w (A1Range (tabTitle w) (Some 65) (Some (k + 1)) (Some (64 + length hs)) (Some (k + 1)))
        = Some (0, Some (length hs), k, Some 1)"
    using n by (intro resolve_from_A) auto
  from 1 f 2 3 4 5 6 n show ?thesis by blast
qed

lemma updateContent_writes_located_row_example:
  "fst (updateContent (JStr ''b'') (object [''Status'' \<mapsto> JStr ''Published'']) example_service example_world)
     = Inr True \<and>
   (\<exists>row. last (requests (snd (snd (updateContent (JStr ''b'') (object [''Status'' \<mapsto> JStr ''Published''])
                                            example_service example_world)))) =
            Update (A1Range ''Sheet1'' (Some 65) (Some 3) (Some 66) (Some 3)) [row] \<and>
          length row = 2)"
proof -
  obtain ok s' w' where run:
    "updateContent (JStr ''b'') (object [''Status'' \<mapsto> JStr ''Published'']) example_service example_world
       = (ok, s', w')"
    by (cases "updateContent (JStr ''b'') (object [''Status'' \<mapsto> JStr ''Published'']) example_service example_world")
  have ok: "ok = Inr True" and s': "s' = example_service"
    using run by (simp_all add: example_service_def example_world_def eval_defs)
  from updateContent_writes_located_row [OF run [unfolded ok]] obtain hs k row pre where
    h: "columnHeaders s' = Some hs" and
    f: "findIndex (\<lambda>row index. index > 0 \<and> at_index row 0 = JStr ''b'')
                (select (grid example_world) (0, Some (length hs), 0, None)) = Some k" and
    rq: "requests w' = requests example_world @ pre @
         [Update (A1Range (tabTitle example_world) (Some 65) (Some (k + 1)) (Some (64 + length hs))
                    (Some (k + 1))) [row]]" and
    len: "length row = length hs"
    by blast
  have hs: "hs = [''Post ID'', ''Status'']" using h s' by (simp add: example_service_def)
  have k: "k = 2" using f unfolding hs by (simp add: example_world_def eval_defs)
  have "last (requests w') = Update (A1Range ''Sheet1'' (Some 65) (Some 3) (Some 66) (Some 3)) [row]"
    unfolding rq hs k by (simp add: example_world_def)
  moreover have "length row = 2" using len hs by simp
  ultimately show ?thesis using run ok by auto
qed

text \<open>
  Claim C7 fails on the code for a schema of 27 columns: the identifier \<open>b\<close> is in
  column A of row 2, yet \<open>updateContent\<close> fails and writes nothing, because the end label
  it computes, code unit 91 (\<open>[\<close>), is no column letter and the store rejects the read
  of \<open>A:[\<close>.
\<close>

theorem updateContent_fails_beyond_column_Z:
  "columnHeaders wide_service = Some (''Post ID'' # replicate 26 ''Note'') \<and>
   length (''Post ID'' # replicate 26 ''Note'') = 27 \<and>
   cell (grid wide_world) 1 0 = ''b'' \<and>
   fromCharCode (65 + int (length (''Post ID'' # replicate 26 ''Note'')) - 1) = 91 \<and>
   col_number 91 = None \<and>
   updateContent (JStr ''b'') (object [''Note'' \<mapsto> JStr ''seen'']) wide_service wide_world =
     (Inl RemoteError, wide_service,
      wide_world\<lparr>clock := 1,
                   requests := [Get (A1Range ''Sheet1'' (Some 65) None (Some 91) None)]\<rparr>)"
  by (simp add: wide_service_def wide_world_def eval_defs)

subsection \<open>Rows with the same identifier\<close>

lemma updateContent_Inl_grid:
  assumes "updateContent pid u s w = (Inl e, s', w')"
  shows "grid w' = grid w"
proof (cases "not_initialized s")
  case True
  then show ?thesis using assms by (simp add: updateContent_def)
next
  case init: False
  obtain r1 s1 w1 where g: "getColumnHeaders s w = (r1, s1, w1)"
    by (cases "getColumnHeaders s w") auto
  from getColumnHeaders_frame [OF g] have g1: "grid w1 = grid w" by simp
  show ?thesis
  proof (cases r1)
    case (Inl e1)
    then show ?thesis using assms init g g1 by (auto simp: updateContent_def)
  next
    case (Inr hs)
    let ?rng = "A1Range (title_text (sheetTitle s1)) (Some 65) None
                  (Some (fromCharCode (65 + int (length hs) - 1))) None"
    obtain r2 w2 where v: "values_get ?rng w1 = (r2, w2)"
      by (cases "values_get ?rng w1") auto
    from values_get_frame [OF v] have g2: "grid w2 = grid w" using g1 by simp
    show ?thesis
    proof (cases r2)
      case (Inl e2)
      then show ?thesis using assms init g Inr v g2 by (auto simp: updateContent_def Let_def)
    next
      case vals: (Inr vals)
      show ?thesis
      proof (cases "findIndex (\<lambda>row index. index > 0 \<and> at_index row 0 = pid) (values_or_empty vals)")
        case None
        then show ?thesis
          using assms init g Inr v vals g2 by (auto simp: updateContent_def Let_def)
      next
        case (Some k)
        let ?target = "A1Range (title_text (sheetTitle s1)) (Some 65) (Some (k + 1))
                         (Some (fromCharCode (65 + int (length hs) - 1))) (Some (k + 1))"
        let ?new = "newRowData hs u (values_or_empty vals ! k)"
        obtain r3 w3 where u: "values_update ?target [?new] w2 = (r3, w3)"
          by (cases "values_update ?target [?new] w2") auto
        have "r3 = Inl e \<and> w' = w3"
          using assms init g Inr v vals Some u
          by (cases r3) (auto simp: updateContent_def Let_def)
        then show ?thesis using values_update_Inl [of ?target "[?new]" w2 e w3] u g2 by simp
      qed
    qed
  qed
qed

text \<open>
  Claim C9. Whatever \<open>updateContent\<close> returns, either the sheet is as before, or the
  update succeeded and changed cells of one row only: the first row after the header
  row whose first cell, as read, is the identifier. No row between the header row and
  that row has the identifier, whatever later rows hold; for a text identifier the
  located row holds it in column A, and a non-empty one is in column A of no earlier
  data row. Every cell of every other row, and every cell of the located row beyond
  the schema's columns, is as before the update.
\<close>

theorem updateContent_changes_first_match_only:
  assumes "updateContent pid updates s w = (res, s', w')"
  shows "grid w' = grid w \<or> (\<exists>hs k.
      res = Inr True \<and> columnHeaders s' = Some hs \<and> 1 \<le> k \<and>
      k < length (select (grid w) (0, Some (length hs), 0, None)) \<and>
      at_index (select (grid w) (0, Some (length hs), 0, None) ! k) 0 = pid \<and>
      (\<forall>j. 1 \<le> j \<and> j < k \<longrightarrow> at_index (select (grid w) (0, Some (length hs), 0, None) ! j) 0 \<noteq> pid) \<and>
      (\<forall>t. pid = JStr t \<longrightarrow> cell (grid w) k 0 = t \<and>
           (t \<noteq> [] \<longrightarrow> (\<forall>j. 1 \<le> j \<and> j < k \<longrightarrow> cell (grid w) j 0 \<noteq> t))) \<and>
      (\<forall>r c. r \<noteq> k \<longrightarrow> cell (grid w') r c = cell (grid w) r c) \<and>
      (\<forall>c. length hs \<le> c \<longrightarrow> cell (grid w') k c = cell (grid w) k c))"
proof (cases res)
  case (Inl e)
  have "grid w' = grid w" using assms [unfolded Inl] by (rule updateContent_Inl_grid)
  then show ?thesis by (rule disjI1)
next
  case (Inr ok)
  from updateContent_success [OF assms [unfolded Inr]] obtain hs k where
    ok: "ok = True" and
    s': "s' = s\<lparr>columnHeaders := Some hs\<rparr>" and
    n: "1 \<le> length hs" "length hs \<le> 26" and
    f: "findIndex (\<lambda>row index. index > 0 \<and> at_index row 0 = pid)
                (select (grid w) (0, Some (length hs), 0, None)) = Some k" and
    g: "grid w' = write_cells (entered w) (grid w) k 0
                   (newRowData hs updates (select (grid w) (0, Some (length hs), 0, None) ! k))"
    by blast
  let ?rows = "select (grid w) (0, Some (length hs), 0, None)"
  from findIndex_Some [OF f]
  have k: "k < length ?rows" "0 < k" "at_index (?rows ! k) 0 = pid"
    and first: "\<And>j. j < k \<Longrightarrow> \<not> (0 < j \<and> at_index (?rows ! j) 0 = pid)"
    by auto
  have 1: "columnHeaders s' = Some hs" using s' by simp
  have 2: "\<forall>j. 1 \<le> j \<and> j < k \<longrightarrow> at_index (?rows ! j) 0 \<noteq> pid"
    using first by auto
  have 3: "\<forall>t. pid = JStr t \<longrightarrow> cell (grid w) k 0 = t \<and>
           (t \<noteq> [] \<longrightarrow> (\<forall>j. 1 \<le> j \<and> j < k \<longrightarrow> cell (grid w) j 0 \<noteq> t))"
  proof (intro allI impI conjI)
    fix t assume t: "pid = JStr t"
    show "cell (grid w) k 0 = t"
      using select_first_cell [OF k(1), of t] k(3) t by simp
    fix j assume ne: "t \<noteq> []" and j: "1 \<le> j \<and> j < k"
    then have jl: "j < length ?rows" using k(1) by simp
    show "cell (grid w) j 0 \<noteq> t"
    proof
      assume "cell (grid w) j 0 = t"
      then have "at_index (?rows ! j) 0 = JStr t"
        using select_first_cell_conv [OF jl n(1) ne] by simp
      then show False using 2 j t by simp
    qed
  qed
  have 4: "\<forall>r c. r \<noteq> k \<longrightarrow> cell (grid w') r c = cell (grid w) r c"
    unfolding g by (simp add: cell_write_cells)
  have 5: "\<forall>c. length hs \<le> c \<longrightarrow> cell (grid w') k c = cell (grid w) k c"
    unfolding g by (simp add: cell_write_cells newRowData_length)
  have 0: "res = Inr True" using Inr ok by simp
  from 0 1 k 2 3 4 5 show ?thesis by (intro disjI2 exI [of _ hs] exI [of _ k]) simp
qed

theorem updateContent_changes_first_match_only_witness:
  "fst (updateContent (JStr ''b'') (object [''Status'' \<mapsto> JStr ''Published'']) example_service duplicate_world)
     = Inr True \<and>
   cell (grid (snd (snd (updateContent (JStr ''b'') (object [''Status'' \<mapsto> JStr ''Published''])
                           example_service duplicate_world)))) 3 1 = ''In Review'' \<and>
   cell (grid (snd (snd (updateContent (JStr ''b'') (object [''Status'' \<mapsto> JStr ''Published''])
                           example_service duplicate_world)))) 1 1 = ''Draft''"
proof -
  obtain res s' w' where run:
    "updateContent (JStr ''b'') (object [''Status'' \<mapsto> JStr ''Published'']) example_service duplicate_world
       = (res, s', w')"
    by (cases "updateContent (JStr ''b'') (object [''Status'' \<mapsto> JStr ''Published'']) example_service duplicate_world")
  have ok: "res = Inr True" and s': "s' = example_service"
    using run by (simp_all add: example_service_def duplicate_world_def eval_defs)
  have old: "cell (grid duplicate_world) 3 1 = ''In Review''" "cell (grid duplicate_world) 1 1 = ''Draft''"
    by (simp_all add: duplicate_world_def cell_def)
  from updateContent_changes_first_match_only [OF run]
  have "cell (grid w') 3 1 = ''In Review'' \<and> cell (grid w') 1 1 = ''Draft''"
  proof
    assume "grid w' = grid duplicate_world"
    then show ?thesis using old by simp
  next
    assume "\<exists>hs k.
      res = Inr True \<and> columnHeaders s' = Some hs \<and> 1 \<le> k \<and>
      k < length (select (grid duplicate_world) (0, Some (length hs), 0, None)) \<and>
      at_index (select (grid duplicate_world) (0, Some (length hs), 0, None) ! k) 0 = JStr ''b'' \<and>
      (\<forall>j. 1 \<le> j \<and> j < k \<longrightarrow>
           at_index (select (grid duplicate_world) (0, Some (length hs), 0, None) ! j) 0 \<noteq> JStr ''b'') \<and>
      (\<forall>t. JStr ''b'' = JStr t \<longrightarrow> cell (grid duplicate_world) k 0 = t \<and>
           (t \<noteq> [] \<longrightarrow> (\<forall>j. 1 \<le> j \<and> j < k \<longrightarrow> cell (grid duplicate_world) j 0 \<noteq> t))) \<and>
      (\<forall>r c. r \<noteq> k \<longrightarrow> cell (grid w') r c = cell (grid duplicate_world) r c) \<and>
      (\<forall>c. length hs \<le> c \<longrightarrow> cell (grid w') k c = cell (grid duplicate_world) k c)"
    then obtain hs k where
      h: "columnHeaders s' = Some hs" and
      k: "1 \<le> k" "k < length (select (grid duplicate_world) (0, Some (length hs), 0, None))" and
      m: "\<forall>t. JStr ''b'' = JStr t \<longrightarrow> cell (grid duplicate_world) k 0 = t \<and>
           (t \<noteq> [] \<longrightarrow> (\<forall>j. 1 \<le> j \<and> j < k \<longrightarrow> cell (grid duplicate_world) j 0 \<noteq> t))" and
      fr: "\<forall>r c. r \<noteq> k \<longrightarrow> cell (grid w') r c = cell (grid duplicate_world) r c"
      by blast
    have hs: "hs = [''Post ID'', ''Status'']" using h s' by (simp add: example_service_def)
    have "k < 4" using k(2) unfolding hs by (simp add: duplicate_world_def eval_defs)
    then have "k = 1 \<or> k = 2 \<or> k = 3" using k(1) by arith
    moreover have "cell (grid duplicate_world) k 0 = ''b''" using m by simp
    moreover have "cell (grid duplicate_world) 1 0 \<noteq> ''b''"
      by (simp add: duplicate_world_def cell_def)
    moreover have "k = 3 \<Longrightarrow> cell (grid duplicate_world) 2 0 \<noteq> ''b''"
      using m by simp
    moreover have "cell (grid duplicate_world) 2 0 = ''b''"
      by (simp add: duplicate_world_def cell_def)
    ultimately have k2: "k = 2" by auto
    have "cell (grid w') 3 1 = cell (grid duplicate_world) 3 1"
      and "cell (grid w') 1 1 = cell (grid duplicate_world) 1 1"
      using fr k2 by simp_all
    then show ?thesis using old by simp
  qed
  then show ?thesis using run ok by simp
qed

subsection \<open>An identifier that is not in the sheet\<close>

lemma no_match_findIndex:
  assumes "\<forall>r. 1 \<le> r \<and> r < length g \<longrightarrow> cell g r 0 \<noteq> t"
  shows "findIndex (\<lambda>row index. index > 0 \<and> at_index row 0 = JStr t)
                   (select g (0, Some n, 0, None)) = None"
proof -
  let ?rows = "select g (0, Some n, 0, None)"
  have "\<not> (0 < j \<and> at_index (?rows ! j) 0 = JStr t)" if j: "j < length ?rows" for j
  proof
    assume a: "0 < j \<and> at_index (?rows ! j) 0 = JStr t"
    have "cell g (0 + j) 0 = t" using select_first_cell [OF j] a by blast
    moreover have "j < length g" using j select_length [of g n 0] by simp
    ultimately show False using assms a by auto
  qed
  then show ?thesis by (simp only: findIndex_None) blast
qed

lemma values_get_Inl: "values_get rng w = (Inl e, w') \<Longrightarrow> e = RemoteError"
  by (auto simp: values_get_def Let_def split: prod.splits bool.splits option.splits)

lemma getColumnHeaders_Inl:
  "getColumnHeaders s w = (Inl e, s', w') \<Longrightarrow> sheets s \<Longrightarrow> e = RemoteError"
  by (auto simp: getColumnHeaders_def loadColumnHeaders_def Let_def
           split: option.splits prod.splits sum.splits dest: values_get_Inl)

lemma ready_init: "ready s w hs \<Longrightarrow> \<not> not_initialized s \<and> title_text (sheetTitle s) = tabTitle w"
  by (auto simp: ready_def not_initialized_def title_text_def)

lemma ready_read:
  assumes "ready s w hs" and "row_span sr er = Some (r0, ht)"
  shows "\<exists>vals.
           values_get (A1Range (title_text (sheetTitle s)) (Some 65) sr
                         (Some (fromCharCode (65 + int (length hs) - 1))) er) w =
             (Inr vals,
              w\<lparr>clock := Suc (clock w),
                 requests := requests w @ [Get (A1Range (tabTitle w) (Some 65) sr
                                                  (Some (64 + length hs)) er)]\<rparr>) \<and>
           values_or_empty vals = select (grid w) (0, Some (length hs), r0, ht)"
proof -
  have n: "1 \<le> length hs" "length hs \<le> 26" and o: "outages w = []"
    using assms(1) by (auto simp: ready_def)
  have t: "title_text (sheetTitle s) = tabTitle w" using ready_init [OF assms(1)] by simp
  have lc: "fromCharCode (65 + int (length hs) - 1) = 64 + length hs"
    using n(2) by (rule lastCol_letter)
  have "resolve w (A1Range (tabTitle w) (Some 65) sr (Some (64 + length hs)) er)
          = Some (0, Some (length hs), r0, ht)"
    using n assms(2) by (rule resolve_from_A)
  from values_get_ok [OF o this] show ?thesis
    unfolding t lc by (intro exI conjI) (assumption, rule values_or_empty_select)
qed

text \<open>
  When no row after the header row holds the identifier in column A, \<open>updateContent\<close>
  fails, the sheet is as before, and the only requests it has issued are reads. The
  failure is the not-found error, unless the adapter is not initialised or a read was
  rejected; when the adapter is ready, it is the not-found error.
\<close>

lemma updateContent_unknown_id:
  assumes "\<forall>r. 1 \<le> r \<and> r < length (grid w) \<longrightarrow> cell (grid w) r 0 \<noteq> t"
    and "updateContent (JStr t) updates s w = (res, s', w')"
  shows "(\<exists>e. res = Inl e) \<and> grid w' = grid w \<and>
         (\<exists>new. requests w' = requests w @ new \<and> (\<forall>rq \<in> set new. \<exists>rng. rq = Get rng)) \<and>
         (res = Inl (NotFound (JStr t)) \<or> res = Inl NotInitialized \<or> res = Inl RemoteError) \<and>
         (\<forall>hs. ready s w hs \<longrightarrow> res = Inl (NotFound (JStr t)))"
proof (cases "not_initialized s")
  case True
  then have "res = Inl NotInitialized" "w' = w" using assms(2) by (auto simp: updateContent_def)
  moreover have "\<forall>hs. \<not> ready s w hs" using True ready_init by blast
  ultimately show ?thesis by auto
next
  case init: False
  obtain r1 s1 w1 where g: "getColumnHeaders s w = (r1, s1, w1)"
    by (cases "getColumnHeaders s w") auto
  from getColumnHeaders_frame [OF g] have g1: "grid w1 = grid w" by simp
  from getColumnHeaders_requests [OF g] obtain pre where
    pre: "requests w1 = requests w @ pre" "\<forall>rq \<in> set pre. \<exists>rng. rq = Get rng"
    by (metis append_Nil2 empty_iff empty_set set_ConsD)
  have cached: "r1 = Inr hs" if "ready s w hs" for hs
    using that g by (simp add: ready_def getColumnHeaders_def)
  show ?thesis
  proof (cases r1)
    case (Inl e)
    then have "res = Inl e" "w' = w1" using assms(2) init g by (auto simp: updateContent_def)
    moreover have "e = RemoteError"
      using getColumnHeaders_Inl [OF g [unfolded Inl]] init by (simp add: not_initialized_def)
    moreover have "\<forall>hs. \<not> ready s w hs" using Inl cached by auto
    ultimately show ?thesis using g1 pre by auto
  next
    case (Inr hs)
    let ?rng = "A1Range (title_text (sheetTitle s1)) (Some 65) None
                  (Some (fromCharCode (65 + int (length hs) - 1))) None"
    obtain r2 w2 where v: "values_get ?rng w1 = (r2, w2)"
      by (cases "values_get ?rng w1") auto
    from values_get_frame [OF v] have g2: "grid w2 = grid w1"
      "requests w2 = requests w1 @ [Get ?rng]" by auto
    have "requests w2 = requests w @ (pre @ [Get ?rng])"
      "\<forall>rq \<in> set (pre @ [Get ?rng]). \<exists>rng. rq = Get rng"
      using g2 pre by auto
    then have new: "\<exists>new. requests w2 = requests w @ new \<and> (\<forall>rq \<in> set new. \<exists>rng. rq = Get rng)"
      by (intro exI [of _ "pre @ [Get ?rng]"] conjI)
    have gw: "grid w2 = grid w" using g1 g2 by simp
    show ?thesis
    proof (cases r2)
      case e: (Inl e)
      then have "res = Inl e" "w' = w2"
        using assms(2) init g Inr v by (auto simp: updateContent_def Let_def)
      moreover have "e = RemoteError" using values_get_Inl [OF v [unfolded e]] .
      moreover have "\<not> ready s w hs'" for hs'
      proof
        assume rd: "ready s w hs'"
        then have "hs' = hs" "s1 = s" "w1 = w" using g Inr by (auto simp: ready_def getColumnHeaders_def)
        then show False using ready_read [OF rd, of None None 0 None] v e by auto
      qed
      ultimately show ?thesis using gw new by simp
    next
      case vals: (Inr vals)
      from values_get_Inr [OF v [unfolded vals]] obtain c0 wd r0 ht where
        r: "resolve w1 ?rng = Some (c0, wd, r0, ht)" and
        rows: "values_or_empty vals = select (grid w1) (c0, wd, r0, ht)"
        by (metis prod_cases4)
      from resolve_columns [OF r] have "c0 = 0" "r0 = 0" "ht = None"
        "wd = Some (fromCharCode (65 + int (length hs) - 1) - 64)" by auto
      then have "findIndex (\<lambda>row index. index > 0 \<and> at_index row 0 = JStr t) (values_or_empty vals) = None"
        using no_match_findIndex [OF assms(1)] rows g1 by simp
      then have "res = Inl (NotFound (JStr t))" "w' = w2"
        using assms(2) init g Inr v vals by (auto simp: updateContent_def Let_def)
      then show ?thesis using gw new by simp
    qed
  qed
qed

lemma updateContent_unknown_id_example:
  "updateContent (JStr ''zz'') (object [''Status'' \<mapsto> JStr ''Published'']) example_service example_world =
     (Inl (NotFound (JStr ''zz'')), example_service,
      example_world\<lparr>clock := 1,
                      requests := [Get (A1Range ''Sheet1'' (Some 65) None (Some 66) None)]\<rparr>)"
proof -
  obtain res s' w' where run:
    "updateContent (JStr ''zz'') (object [''Status'' \<mapsto> JStr ''Published'']) example_service example_world
       = (res, s', w')"
    by (cases "updateContent (JStr ''zz'') (object [''Status'' \<mapsto> JStr ''Published'']) example_service example_world")
  have sw: "s' = example_service"
    "w' = example_world\<lparr>clock := 1,
                      requests := [Get (A1Range ''Sheet1'' (Some 65) None (Some 66) None)]\<rparr>"
    using run by (simp_all add: example_service_def example_world_def eval_defs)
  have no: "\<forall>r. 1 \<le> r \<and> r < length (grid example_world) \<longrightarrow> cell (grid example_world) r 0 \<noteq> ''zz''"
  proof (intro allI impI)
    fix r assume "1 \<le> r \<and> r < length (grid example_world)"
    then have "r = 1 \<or> r = 2" by (auto simp: example_world_def)
    then show "cell (grid example_world) r 0 \<noteq> ''zz''"
      by (auto simp: example_world_def cell_def)
  qed
  have rd: "ready example_service example_world [''Post ID'', ''Status'']"
    by (simp add: ready_def example_service_def example_world_def)
  from updateContent_unknown_id [OF no run] rd have "res = Inl (NotFound (JStr ''zz''))" by blast
  then show ?thesis using run sw by simp
qed

text \<open>
  Claim C4 fails on the code for a schema of 27 columns. The sheet has one data row,
  whose identifier is \<open>b\<close>, so no row holds the identifier \<open>zz\<close>; yet the failure of
  \<open>updateContent\<close> is not the not-found error but the store's rejection of the read of
  \<open>A:[\<close>, whose end label, code unit 91, is no column letter. Nothing is written. On
  the sheet of two columns the same call fails with the not-found error.
\<close>

theorem updateContent_unknown_id_beyond_column_Z:
  "length (grid wide_world) = 2 \<and> cell (grid wide_world) 1 0 = ''b'' \<and>
   length (''Post ID'' # replicate 26 ''Note'') = 27 \<and>
   updateContent (JStr ''zz'') (object [''Status'' \<mapsto> JStr ''Published'']) wide_service wide_world =
     (Inl RemoteError, wide_service,
      wide_world\<lparr>clock := 1,
                   requests := [Get (A1Range ''Sheet1'' (Some 65) None (Some 91) None)]\<rparr>) \<and>
   fst (updateContent (JStr ''zz'') (object [''Status'' \<mapsto> JStr ''Published''])
          example_service example_world) = Inl (NotFound (JStr ''zz''))"
  by (simp add: wide_service_def wide_world_def example_service_def example_world_def eval_defs)

subsection \<open>Records of a sync\<close>

lemma js_or_null_values: "js_or a JNull \<noteq> JStr [] \<and> js_or a JNull \<noteq> JUndefined"
  by (cases a) (auto simp: js_or_def truthy_def)

lemma own_assign_other: "k \<noteq> h \<Longrightarrow> own (assign obj k v) h = own obj h"
  by (simp add: assign_def)

lemma own_assign_same: "h \<noteq> ''__proto__'' \<Longrightarrow> own (assign obj h v) h = Some v"
  by (simp add: assign_def)

lemma dom_assign:
  "dom (own (assign obj k v)) = dom (own obj) \<or> dom (own (assign obj k v)) = insert k (dom (own obj))"
  by (simp add: assign_def)

lemma dom_assign_field:
  "k \<noteq> ''__proto__'' \<Longrightarrow> dom (own (assign obj k v)) = insert k (dom (own obj))"
  by (simp add: assign_def)

lemma prop_of_own:
  "k \<noteq> ''__proto__'' \<Longrightarrow> k \<notin> set prototype_methods \<Longrightarrow>
     prop_of obj k = (case own obj k of None \<Rightarrow> JUndefined | Some v \<Rightarrow> v)"
  by (simp add: prop_of_def split: option.splits)

lemma prop_of_Post_ID:
  "prop_of obj ''Post ID'' = (case own obj ''Post ID'' of None \<Rightarrow> JUndefined | Some v \<Rightarrow> v)"
  by (rule prop_of_own) (simp_all add: prototype_methods_def)

lemma forEach_header_other:
  "k \<notin> set hs \<Longrightarrow> own (forEach_header hs c row item) k = own item k"
  by (induction hs arbitrary: c item) (auto simp: own_assign_other)

text \<open>The field named by a column holds the cell of the last column of that name.\<close>

lemma forEach_header_last:
  "i < length hs \<Longrightarrow> hs ! i \<noteq> ''__proto__'' \<Longrightarrow>
   (\<forall>i'. i < i' \<and> i' < length hs \<longrightarrow> hs ! i' \<noteq> hs ! i) \<Longrightarrow>
     own (forEach_header hs c row item) (hs ! i) = Some (js_or (at_index row (c + i)) JNull)"
proof (induction hs arbitrary: c item i)
  case Nil
  then show ?case by simp
next
  case (Cons h hs)
  show ?case
  proof (cases i)
    case 0
    have "h \<notin> set hs"
    proof
      assume "h \<in> set hs"
      then obtain j where "j < length hs" "hs ! j = h" by (auto simp: in_set_conv_nth)
      with Cons.prems(3) [rule_format, of "Suc j"] 0 show False by simp
    qed
    moreover have "h \<noteq> ''__proto__''" using Cons.prems(2) 0 by simp
    ultimately show ?thesis using 0 by (simp add: forEach_header_other own_assign_same)
  next
    case (Suc i')
    have 1: "i' < length hs" using Cons.prems(1) Suc by simp
    have 2: "hs ! i' \<noteq> ''__proto__''" using Cons.prems(2) Suc by simp
    have 3: "\<forall>j. i' < j \<and> j < length hs \<longrightarrow> hs ! j \<noteq> hs ! i'"
    proof (intro allI impI)
      fix j assume "i' < j \<and> j < length hs"
      with Cons.prems(3) [rule_format, of "Suc j"] Suc show "hs ! j \<noteq> hs ! i'" by simp
    qed
    from Cons.IH [OF 1 2 3, of "Suc c"] show ?thesis using Suc by simp
  qed
qed

lemma forEach_header_nth:
  "distinct hs \<Longrightarrow> i < length hs \<Longrightarrow> hs ! i \<noteq> ''__proto__'' \<Longrightarrow>
     own (forEach_header hs c row item) (hs ! i) = Some (js_or (at_index row (c + i)) JNull)"
  by (rule forEach_header_last) (auto simp: nth_eq_iff_index_eq)

lemma forEach_header_dom_upper:
  "dom (own (forEach_header hs c row item)) \<subseteq> dom (own item) \<union> set hs"
proof (induction hs arbitrary: c item)
  case Nil
  then show ?case by simp
next
  case (Cons h hs)
  let ?item = "assign item h (js_or (at_index row c) JNull)"
  have "dom (own ?item) \<subseteq> insert h (dom (own item))" using dom_assign [of item h] by blast
  with Cons.IH [of "Suc c" ?item] show ?case by auto
qed

lemma forEach_header_dom_lower:
  "dom (own item) \<union> (set hs - {''__proto__''}) \<subseteq> dom (own (forEach_header hs c row item))"
proof (induction hs arbitrary: c item)
  case Nil
  then show ?case by simp
next
  case (Cons h hs)
  let ?item = "assign item h (js_or (at_index row c) JNull)"
  have 1: "dom (own item) \<subseteq> dom (own ?item)" using dom_assign [of item h] by blast
  have 2: "h \<noteq> ''__proto__'' \<longrightarrow> h \<in> dom (own ?item)" by (simp add: dom_assign_field)
  from Cons.IH [of ?item "Suc c"] 1 2 show ?case by auto
qed

lemma forEach_header_values:
  assumes "\<forall>k v. own item k = Some v \<longrightarrow> v \<noteq> JStr [] \<and> v \<noteq> JUndefined"
    and "own (forEach_header hs c row item) k = Some v"
  shows "v \<noteq> JStr [] \<and> v \<noteq> JUndefined"
  using assms
proof (induction hs arbitrary: c item)
  case Nil
  then show ?case by simp
next
  case (Cons h hs)
  let ?item = "assign item h (js_or (at_index row c) JNull)"
  have "\<forall>k v. own ?item k = Some v \<longrightarrow> v \<noteq> JStr [] \<and> v \<noteq> JUndefined"
    using Cons.prems(1) js_or_null_values by (auto simp: assign_def)
  moreover have "own (forEach_header hs (Suc c) row ?item) k = Some v" using Cons.prems(2) by simp
  ultimately show ?case by (rule Cons.IH)
qed

lemma row_to_item_dom:
  "set hs - {''__proto__''} \<subseteq> dom (own (row_to_item hs row)) \<and>
   dom (own (row_to_item hs row)) \<subseteq> set hs"
  using forEach_header_dom_lower [of "object Map.empty" hs 0 row]
        forEach_header_dom_upper [of hs 0 row "object Map.empty"]
  by (simp add: row_to_item_def)

lemma row_to_item_last:
  "i < length hs \<Longrightarrow> hs ! i \<noteq> ''__proto__'' \<Longrightarrow>
   (\<forall>i'. i < i' \<and> i' < length hs \<longrightarrow> hs ! i' \<noteq> hs ! i) \<Longrightarrow>
     own (row_to_item hs row) (hs ! i) = Some (js_or (at_index row i) JNull)"
  using forEach_header_last [of i hs 0 row "object Map.empty"] by (simp add: row_to_item_def)

lemma row_to_item_nth:
  "distinct hs \<Longrightarrow> i < length hs \<Longrightarrow> hs ! i \<noteq> ''__proto__'' \<Longrightarrow>
     own (row_to_item hs row) (hs ! i) = Some (js_or (at_index row i) JNull)"
  by (rule row_to_item_last) (auto simp: nth_eq_iff_index_eq)

lemma row_to_item_values:
  "own (row_to_item hs row) k = Some v \<Longrightarrow> v \<noteq> JStr [] \<and> v \<noteq> JUndefined"
  unfolding row_to_item_def by (rule forEach_header_values [of "object Map.empty"]) auto

lemma syncSheet_Inr:
  assumes "syncSheet s w = (Inr recs, s', w')"
  shows "\<exists>hs. columnHeaders s' = Some hs \<and>
           65 \<le> fromCharCode (65 + int (length hs) - 1) \<and>
           fromCharCode (65 + int (length hs) - 1) \<le> 90 \<and>
           recs = map (row_to_item hs)
                    (select (grid w) (0, Some (fromCharCode (65 + int (length hs) - 1) - 64), 1, None))"
proof -
  from assms obtain hs s1 w1 vals w2 where
    g: "getColumnHeaders s w = (Inr hs, s1, w1)" and
    v: "values_get (A1Range (title_text (sheetTitle s1)) (Some 65) (Some 2)
                      (Some (fromCharCode (65 + int (length hs) - 1))) None) w1 = (Inr vals, w2)" and
    r: "recs = map (row_to_item hs) (values_or_empty vals)" and
    s': "s' = s1\<lparr>lastSyncTime := Some (clock w2)\<rparr>"
    by (auto simp: syncSheet_def Let_def split: if_splits prod.splits sum.splits)
  from getColumnHeaders_frame [OF g] have g1: "grid w1 = grid w" "s1 = s\<lparr>columnHeaders := Some hs\<rparr>"
    by auto
  from values_get_Inr [OF v] obtain c0 wd r0 ht where
    rs: "resolve w1 (A1Range (title_text (sheetTitle s1)) (Some 65) (Some 2)
                      (Some (fromCharCode (65 + int (length hs) - 1))) None) = Some (c0, wd, r0, ht)" and
    rows: "values_or_empty vals = select (grid w1) (c0, wd, r0, ht)"
    by (metis prod_cases4)
  from resolve_columns [OF rs] have b: "65 \<le> fromCharCode (65 + int (length hs) - 1)"
    "fromCharCode (65 + int (length hs) - 1) \<le> 90" "c0 = 0"
    "wd = Some (fromCharCode (65 + int (length hs) - 1) - 64)" "r0 = 1" "ht = None"
    by auto
  have "columnHeaders s' = Some hs" using s' g1 by simp
  then show ?thesis using b r rows g1 by auto
qed

lemma lastCol_in_range:
  assumes "length hs \<le> 18278"
    and "65 \<le> fromCharCode (65 + int (length hs) - 1)"
    and "fromCharCode (65 + int (length hs) - 1) \<le> 90"
  shows "1 \<le> length hs \<and> length hs \<le> 26 \<and> fromCharCode (65 + int (length hs) - 1) = 64 + length hs"
proof -
  have "fromCharCode (65 + int (length hs) - 1) = 64 + length hs"
    using assms(1) by (simp only: lastCol_wrap) simp
  then show ?thesis using assms(2,3) by simp
qed

lemma ready_frame:
  "ready (s\<lparr>lastSyncTime := x\<rparr>) w hs = ready s w hs"
  "ready s (w\<lparr>clock := c, requests := q\<rparr>) hs = ready s w hs"
  "ready s (w\<lparr>clock := c, requests := q, grid := g\<rparr>) hs = ready s w hs"
  by (simp_all add: ready_def)

lemma syncSheet_ready:
  assumes "ready s w hs"
  shows "syncSheet s w =
           (Inr (map (row_to_item hs) (select (grid w) (0, Some (length hs), 1, None))),
            s\<lparr>lastSyncTime := Some (Suc (clock w))\<rparr>,
            w\<lparr>clock := Suc (clock w),
               requests := requests w @ [Get (A1Range (tabTitle w) (Some 65) (Some 2)
                                                (Some (64 + length hs)) None)]\<rparr>)"
proof -
  have init: "\<not> not_initialized s" using ready_init [OF assms] by simp
  have g: "getColumnHeaders s w = (Inr hs, s, w)"
    using assms by (simp add: ready_def getColumnHeaders_def)
  have "row_span (Some 2) None = Some (1, None)" by simp
  from ready_read [OF assms this] obtain vals where
    "values_get (A1Range (title_text (sheetTitle s)) (Some 65) (Some 2)
                   (Some (fromCharCode (65 + int (length hs) - 1))) None) w =
       (Inr vals,
        w\<lparr>clock := Suc (clock w),
           requests := requests w @ [Get (A1Range (tabTitle w) (Some 65) (Some 2)
                                            (Some (64 + length hs)) None)]\<rparr>)"
    "values_or_empty vals = select (grid w) (0, Some (length hs), 1, None)"
    by blast
  then show ?thesis
    using init g by (simp add: syncSheet_def Let_def)
qed

lemma syncSheet_Inr_records:
  assumes "syncSheet s w = (Inr recs, s', w')" and "columnHeaders s' = Some hs"
    and "length hs \<le> 18278"
  shows "recs = map (row_to_item hs) (select (grid w) (0, Some (length hs), 1, None)) \<and>
      length recs \<le> length (grid w) - 1 \<and>
      (\<forall>j < length recs.
         set hs - {''__proto__''} \<subseteq> dom (own (recs ! j)) \<and> dom (own (recs ! j)) \<subseteq> set hs \<and>
         (\<forall>i < length hs.
            hs ! i \<noteq> ''__proto__'' \<and> (\<forall>i'. i < i' \<and> i' < length hs \<longrightarrow> hs ! i' \<noteq> hs ! i) \<longrightarrow>
              own (recs ! j) (hs ! i) =
                Some (if cell (grid w) (Suc j) i = [] then JNull
                      else JStr (cell (grid w) (Suc j) i))) \<and>
         (distinct hs \<and> ''__proto__'' \<notin> set hs \<longrightarrow>
            dom (own (recs ! j)) = set hs \<and>
            (\<forall>i < length hs.
               own (recs ! j) (hs ! i) =
                 Some (if cell (grid w) (Suc j) i = [] then JNull
                       else JStr (cell (grid w) (Suc j) i))))) \<and>
      (\<forall>r i. length recs < r \<and> i < length hs \<longrightarrow> cell (grid w) r i = []) \<and>
      (recs \<noteq> [] \<longrightarrow> (\<exists>i < length hs. cell (grid w) (length recs) i \<noteq> []))"
proof -
  let ?n = "length hs"
  let ?rows = "select (grid w) (0, Some ?n, 1, None)"
  from syncSheet_Inr [OF assms(1)] assms(2)
  have lc: "65 \<le> fromCharCode (65 + int ?n - 1)" "fromCharCode (65 + int ?n - 1) \<le> 90"
    and r0: "recs = map (row_to_item hs)
                    (select (grid w) (0, Some (fromCharCode (65 + int ?n - 1) - 64), 1, None))"
    by auto
  from lastCol_in_range [OF assms(3) lc]
  have n: "1 \<le> ?n" "?n \<le> 26" "fromCharCode (65 + int ?n - 1) = 64 + ?n" by auto
  have recs: "recs = map (row_to_item hs) ?rows" using r0 n(3) by simp
  then have len: "length recs = length ?rows" by simp
  have 1: "length recs \<le> length (grid w) - 1"
    unfolding len by (rule select_length)
  have field: "own (recs ! j) (hs ! i) =
                 Some (if cell (grid w) (Suc j) i = [] then JNull
                       else JStr (cell (grid w) (Suc j) i))"
    if j: "j < length recs" and i: "i < ?n" and p: "hs ! i \<noteq> ''__proto__''"
      and l: "\<forall>i'. i < i' \<and> i' < ?n \<longrightarrow> hs ! i' \<noteq> hs ! i" for j i
  proof -
    have rj: "recs ! j = row_to_item hs (?rows ! j)" using j recs by simp
    have jr: "j < length ?rows" using j len by simp
    have "own (recs ! j) (hs ! i) = Some (js_or (at_index (?rows ! j) i) JNull)"
      unfolding rj using i p l by (rule row_to_item_last)
    also have "js_or (at_index (?rows ! j) i) JNull =
               (if i < ?n \<and> cell (grid w) (1 + j) i \<noteq> [] then JStr (cell (grid w) (1 + j) i) else JNull)"
      by (rule select_cell [OF jr])
    finally show ?thesis using i by simp
  qed
  have doms: "set hs - {''__proto__''} \<subseteq> dom (own (recs ! j)) \<and> dom (own (recs ! j)) \<subseteq> set hs"
    if j: "j < length recs" for j
  proof -
    have rj: "recs ! j = row_to_item hs (?rows ! j)" using j recs by simp
    show ?thesis unfolding rj by (rule row_to_item_dom)
  qed
  have 2: "set hs - {''__proto__''} \<subseteq> dom (own (recs ! j)) \<and> dom (own (recs ! j)) \<subseteq> set hs \<and>
         (\<forall>i < length hs.
            hs ! i \<noteq> ''__proto__'' \<and> (\<forall>i'. i < i' \<and> i' < length hs \<longrightarrow> hs ! i' \<noteq> hs ! i) \<longrightarrow>
              own (recs ! j) (hs ! i) =
                Some (if cell (grid w) (Suc j) i = [] then JNull
                      else JStr (cell (grid w) (Suc j) i))) \<and>
         (distinct hs \<and> ''__proto__'' \<notin> set hs \<longrightarrow>
            dom (own (recs ! j)) = set hs \<and>
            (\<forall>i < length hs.
               own (recs ! j) (hs ! i) =
                 Some (if cell (grid w) (Suc j) i = [] then JNull
                       else JStr (cell (grid w) (Suc j) i))))"
    if j: "j < length recs" for j
  proof (intro conjI allI impI)
    show "set hs - {''__proto__''} \<subseteq> dom (own (recs ! j))" using doms [OF j] by simp
    show "dom (own (recs ! j)) \<subseteq> set hs" using doms [OF j] by simp
  next
    fix i assume "i < ?n"
      and "hs ! i \<noteq> ''__proto__'' \<and> (\<forall>i'. i < i' \<and> i' < ?n \<longrightarrow> hs ! i' \<noteq> hs ! i)"
    then show "own (recs ! j) (hs ! i) =
                 Some (if cell (grid w) (Suc j) i = [] then JNull
                       else JStr (cell (grid w) (Suc j) i))"
      using field [OF j] by simp
  next
    assume d: "distinct hs \<and> ''__proto__'' \<notin> set hs"
    then show "dom (own (recs ! j)) = set hs" using doms [OF j] by auto
  next
    fix i assume d: "distinct hs \<and> ''__proto__'' \<notin> set hs" and i: "i < ?n"
    have "hs ! i \<noteq> ''__proto__''" using d i by (metis nth_mem)
    moreover have "\<forall>i'. i < i' \<and> i' < ?n \<longrightarrow> hs ! i' \<noteq> hs ! i"
      using d i by (auto simp: nth_eq_iff_index_eq)
    ultimately show "own (recs ! j) (hs ! i) =
                 Some (if cell (grid w) (Suc j) i = [] then JNull
                       else JStr (cell (grid w) (Suc j) i))"
      using field [OF j i] by simp
  qed
  have 3: "cell (grid w) r i = []" if "length recs < r \<and> i < ?n" for r i
  proof -
    have "length ?rows < r" using that len by simp
    then have "length ?rows \<le> r - 1" and "1 + (r - 1) = r" by arith+
    with select_beyond [of "grid w" ?n 1 "r - 1" i] that show ?thesis by simp
  qed
  have 4: "\<exists>i < ?n. cell (grid w) (length recs) i \<noteq> []" if "recs \<noteq> []"
  proof -
    have ne: "?rows \<noteq> []" using that recs by simp
    then have "1 + (length ?rows - 1) = length recs" using len by (cases ?rows) auto
    with select_last_nonblank [OF ne] show ?thesis by simp
  qed
  from recs 1 2 3 4 show ?thesis by blast
qed

text \<open>
  Claim C5 as stated fails. Where two columns have the same name, the later column
  overwrites the field of the earlier one: with the columns \<open>Post ID, Note, Note\<close> and
  the row \<open>a, Open, Closed\<close> the record has two fields, and the cell \<open>Open\<close> at position 1
  is in neither.
\<close>

theorem syncSheet_duplicate_column_loses_cell:
  "fst (syncSheet duplicate_columns_service duplicate_columns_world) =
     Inr [(object [''Post ID'' \<mapsto> JStr ''a'', ''Note'' \<mapsto> JStr ''Closed''])] \<and>
   cell (grid duplicate_columns_world) 1 1 = ''Open''"
  by (simp add: duplicate_columns_service_def duplicate_columns_world_def eval_defs)

text \<open>
  Claim C5, amended. When the adapter is ready a sync succeeds, whatever the shape of
  the rows. After a successful sync of a schema \<open>hs\<close> of at most 26 columns (the widths
  whose last column the adapter can name), record \<open>j\<close> of the returned list is built
  from the sheet row with index \<open>j + 1\<close> (the rows after the header row, in order); the
  list ends with the last row that has a non-blank cell in a schema column.
  The fields of each record are named by schema columns, and every column name other
  than \<open>__proto__\<close> names a field. The field named by column \<open>i\<close> holds the cell at
  position \<open>i\<close> of its row, or \<open>null\<close> when that cell is blank or the row is too short,
  provided that no later column has the same name and the name is not \<open>__proto__\<close>. So
  when the column names are distinct and none is \<open>__proto__\<close>, each record has exactly
  the schema columns as fields, each holding the cell of its column.
\<close>

theorem syncSheet_records:
  "(ready s w hs \<longrightarrow>
      (\<exists>recs s' w'. syncSheet s w = (Inr recs, s', w') \<and> columnHeaders s' = Some hs)) \<and>
   (syncSheet s w = (Inr recs, s', w') \<and> columnHeaders s' = Some hs \<and> length hs \<le> 26 \<longrightarrow>
      recs = map (row_to_item hs) (select (grid w) (0, Some (length hs), 1, None)) \<and>
      length recs \<le> length (grid w) - 1 \<and>
      (\<forall>j < length recs.
         set hs - {''__proto__''} \<subseteq> dom (own (recs ! j)) \<and> dom (own (recs ! j)) \<subseteq> set hs \<and>
         (\<forall>i < length hs.
            hs ! i \<noteq> ''__proto__'' \<and> (\<forall>i'. i < i' \<and> i' < length hs \<longrightarrow> hs ! i' \<noteq> hs ! i) \<longrightarrow>
              own (recs ! j) (hs ! i) =
                Some (if cell (grid w) (Suc j) i = [] then JNull
                      else JStr (cell (grid w) (Suc j) i))) \<and>
         (distinct hs \<and> ''__proto__'' \<notin> set hs \<longrightarrow>
            dom (own (recs ! j)) = set hs \<and>
            (\<forall>i < length hs.
               own (recs ! j) (hs ! i) =
                 Some (if cell (grid w) (Suc j) i = [] then JNull
                       else JStr (cell (grid w) (Suc j) i))))) \<and>
      (\<forall>r i. length recs < r \<and> i < length hs \<longrightarrow> cell (grid w) r i = []) \<and>
      (recs \<noteq> [] \<longrightarrow> (\<exists>i < length hs. cell (grid w) (length recs) i \<noteq> [])))"
proof (rule conjI; rule impI)
  assume rd: "ready s w hs"
  have "columnHeaders s = Some hs" using rd by (simp add: ready_def)
  then show "\<exists>recs s' w'. syncSheet s w = (Inr recs, s', w') \<and> columnHeaders s' = Some hs"
    by (simp add: syncSheet_ready [OF rd])
next
  assume "syncSheet s w = (Inr recs, s', w') \<and> columnHeaders s' = Some hs \<and> length hs \<le> 26"
  then have "syncSheet s w = (Inr recs, s', w')" "columnHeaders s' = Some hs" "length hs \<le> 18278"
    by auto
  then show "recs = map (row_to_item hs) (select (grid w) (0, Some (length hs), 1, None)) \<and>
      length recs \<le> length (grid w) - 1 \<and>
      (\<forall>j < length recs.
         set hs - {''__proto__''} \<subseteq> dom (own (recs ! j)) \<and> dom (own (recs ! j)) \<subseteq> set hs \<and>
         (\<forall>i < length hs.
            hs ! i \<noteq> ''__proto__'' \<and> (\<forall>i'. i < i' \<and> i' < length hs \<longrightarrow> hs ! i' \<noteq> hs ! i) \<longrightarrow>
              own (recs ! j) (hs ! i) =
                Some (if cell (grid w) (Suc j) i = [] then JNull
                      else JStr (cell (grid w) (Suc j) i))) \<and>
         (distinct hs \<and> ''__proto__'' \<notin> set hs \<longrightarrow>
            dom (own (recs ! j)) = set hs \<and>
            (\<forall>i < length hs.
               own (recs ! j) (hs ! i) =
                 Some (if cell (grid w) (Suc j) i = [] then JNull
                       else JStr (cell (grid w) (Suc j) i))))) \<and>
      (\<forall>r i. length recs < r \<and> i < length hs \<longrightarrow> cell (grid w) r i = []) \<and>
      (recs \<noteq> [] \<longrightarrow> (\<exists>i < length hs. cell (grid w) (length recs) i \<noteq> []))"
    by (rule syncSheet_Inr_records)
qed

theorem syncSheet_records_witness:
  "\<exists>recs. fst (syncSheet ragged_service ragged_world) = Inr recs \<and> length recs = 2 \<and>
      own (recs ! 0) ''Topic'' = Some JNull \<and> own (recs ! 1) ''Status'' = Some JNull \<and>
      own (recs ! 1) ''Topic'' = Some (JStr ''Cats'')"
proof -
  let ?hs = "[''Post ID'', ''Status'', ''Topic'']"
  have rd: "ready ragged_service ragged_world ?hs"
    by (simp add: ready_def ragged_service_def ragged_world_def)
  from syncSheet_records [THEN conjunct1, THEN mp, OF rd] obtain recs s' w' where
    run: "syncSheet ragged_service ragged_world = (Inr recs, s', w')" and
    h: "columnHeaders s' = Some ?hs"
    by blast
  have "length ?hs \<le> 26" by simp
  from syncSheet_records [THEN conjunct2, THEN mp, OF conjI [OF run conjI [OF h this]]]
  have r: "recs = map (row_to_item ?hs) (select (grid ragged_world) (0, Some (length ?hs), 1, None))"
    and f: "\<forall>j < length recs. distinct ?hs \<and> ''__proto__'' \<notin> set ?hs \<longrightarrow>
               (\<forall>i < length ?hs.
                  own (recs ! j) (?hs ! i) =
                    Some (if cell (grid ragged_world) (Suc j) i = [] then JNull
                          else JStr (cell (grid ragged_world) (Suc j) i)))"
    by blast+
  have len: "length recs = 2"
    unfolding r by (simp add: ragged_world_def select.simps trim_rows_def trim_row_def)
  have d: "distinct ?hs \<and> ''__proto__'' \<notin> set ?hs" by simp
  have "own (recs ! 0) (?hs ! 2) = Some (if cell (grid ragged_world) (Suc 0) 2 = [] then JNull
                          else JStr (cell (grid ragged_world) (Suc 0) 2))"
    using f [rule_format, of 0 2] len d by simp
  then have a: "own (recs ! 0) ''Topic'' = Some JNull" by (simp add: ragged_world_def cell_def)
  have "own (recs ! 1) (?hs ! 1) = Some (if cell (grid ragged_world) (Suc 1) 1 = [] then JNull
                          else JStr (cell (grid ragged_world) (Suc 1) 1))"
    using f [rule_format, of 1 1] len d by simp
  then have b: "own (recs ! 1) ''Status'' = Some JNull" by (simp add: ragged_world_def cell_def)
  have "own (recs ! 1) (?hs ! 2) = Some (if cell (grid ragged_world) (Suc 1) 2 = [] then JNull
                          else JStr (cell (grid ragged_world) (Suc 1) 2))"
    using f [rule_format, of 1 2] len d by simp
  then have c: "own (recs ! 1) ''Topic'' = Some (JStr ''Cats'')" by (simp add: ragged_world_def cell_def)
  from run len a b c show ?thesis by auto
qed

subsection \<open>Reading and writing when the adapter is ready\<close>

lemma updateContent_ready:
  assumes "ready s w hs"
    and "findIndex (\<lambda>row index. index > 0 \<and> at_index row 0 = pid)
                   (select (grid w) (0, Some (length hs), 0, None)) = Some k"
    and "list_all (\<lambda>v. to_json v \<noteq> JsonObject)
                  (newRowData hs u (select (grid w) (0, Some (length hs), 0, None) ! k))"
  shows "updateContent pid u s w =
           (Inr True, s,
            w\<lparr>clock := Suc (Suc (clock w)),
               requests := requests w @
                 [Get (A1Range (tabTitle w) (Some 65) None (Some (64 + length hs)) None),
                  Update (A1Range (tabTitle w) (Some 65) (Some (k + 1)) (Some (64 + length hs))
                            (Some (k + 1)))
                         [newRowData hs u (select (grid w) (0, Some (length hs), 0, None) ! k)]],
               grid := write_cells (entered w) (grid w) k 0
                         (newRowData hs u (select (grid w) (0, Some (length hs), 0, None) ! k))\<rparr>)"
proof -
  let ?rows = "select (grid w) (0, Some (length hs), 0, None)"
  let ?new = "newRowData hs u (?rows ! k)"
  let ?get = "Get (A1Range (tabTitle w) (Some 65) None (Some (64 + length hs)) None)"
  let ?target = "A1Range (tabTitle w) (Some 65) (Some (k + 1)) (Some (64 + length hs)) (Some (k + 1))"
  let ?w2 = "w\<lparr>clock := Suc (clock w), requests := requests w @ [?get]\<rparr>"
  have init: "\<not> not_initialized s" and t: "title_text (sheetTitle s) = tabTitle w"
    using ready_init [OF assms(1)] by simp_all
  have n: "1 \<le> length hs" "length hs \<le> 26" using assms(1) by (auto simp: ready_def)
  have lc: "fromCharCode (65 + int (length hs) - 1) = 64 + length hs"
    using n(2) by (rule lastCol_letter)
  have g: "getColumnHeaders s w = (Inr hs, s, w)"
    using assms(1) by (simp add: ready_def getColumnHeaders_def)
  have "row_span None None = Some (0, None)" by simp
  from ready_read [OF assms(1) this] obtain vals where
    v: "values_get (A1Range (tabTitle w) (Some 65) None (Some (64 + length hs)) None) w =
             (Inr vals, ?w2)"
    and ve: "values_or_empty vals = ?rows"
    unfolding t lc by blast
  have o2: "outages ?w2 = []" using assms(1) by (simp add: ready_def)
  have "resolve ?w2 (A1Range (tabTitle ?w2) (Some 65) (Some (k + 1)) (Some (64 + length hs)) (Some (k + 1)))
          = Some (0, Some (length hs), k, Some 1)"
    using n by (intro resolve_from_A) auto
  then have r2: "resolve ?w2 ?target = Some (0, Some (length hs), k, Some 1)" by simp
  have "values_update ?target [?new] ?w2 =
          (Inr (), ?w2\<lparr>clock := Suc (clock ?w2), requests := requests ?w2 @ [Update ?target [?new]],
                        grid := write_rows (entered ?w2) (grid ?w2) k 0 [?new]\<rparr>)"
    using o2 r2 by (rule values_update_ok) (simp_all add: newRowData_length assms(3))
  then have u: "values_update ?target [?new] ?w2 =
          (Inr (), w\<lparr>clock := Suc (Suc (clock w)),
                      requests := requests w @ [?get, Update ?target [?new]],
                      grid := write_cells (entered w) (grid w) k 0 ?new\<rparr>)"
    by simp
  have lc': "fromCharCode (64 + int (length hs)) = 64 + length hs" using lc by simp
  show ?thesis
    using init g v ve u assms(2) by (simp add: updateContent_def Let_def t lc')
qed

text \<open>The first data row that holds a non-empty identifier in column A.\<close>

lemma first_row_exists:
  assumes "1 \<le> r" and "cell g r 0 = t"
  shows "\<exists>k. 1 \<le> k \<and> cell g k 0 = t \<and> (\<forall>j. 1 \<le> j \<and> j < k \<longrightarrow> cell g j 0 \<noteq> t)"
proof -
  let ?P = "\<lambda>k. 1 \<le> k \<and> cell g k 0 = t"
  have "?P r" using assms by simp
  then have "?P (LEAST k. ?P k)" by (rule LeastI)
  moreover have "\<not> ?P j" if "j < (LEAST k. ?P k)" for j
    using that by (rule not_less_Least)
  ultimately show ?thesis by blast
qed

lemma first_row_in_read:
  assumes "1 \<le> n" and "t \<noteq> []" and "cell g (r0 + j) 0 = t"
  shows "j < length (select g (0, Some n, r0, None))"
proof (rule ccontr)
  assume "\<not> j < length (select g (0, Some n, r0, None))"
  then have "length (select g (0, Some n, r0, None)) \<le> j" by simp
  from select_beyond [OF this, of 0] assms show False by simp
qed

lemma findIndex_first_row:
  assumes "1 \<le> n" and "t \<noteq> []" and "1 \<le> k" and "cell g k 0 = t"
    and "\<forall>j. 1 \<le> j \<and> j < k \<longrightarrow> cell g j 0 \<noteq> t"
  shows "findIndex (\<lambda>row index. index > 0 \<and> at_index row 0 = JStr t)
                   (select g (0, Some n, 0, None)) = Some k"
proof (rule findIndex_first)
  let ?rows = "select g (0, Some n, 0, None)"
  show k: "k < length ?rows"
    using first_row_in_read [OF assms(1,2), of g 0 k] assms(4) by simp
  show "0 < k \<and> at_index (?rows ! k) 0 = JStr t"
    using select_first_cell_conv [OF k assms(1,2)] assms(3,4) by simp
  show "\<forall>j < k. \<not> (0 < j \<and> at_index (?rows ! j) 0 = JStr t)"
  proof (intro allI impI notI)
    fix j assume j: "j < k" and a: "0 < j \<and> at_index (?rows ! j) 0 = JStr t"
    have "j < length ?rows" using j k by simp
    from select_first_cell [OF this, of t] a have "cell g j 0 = t" by simp
    then show False using assms(5) j a by auto
  qed
qed

lemma getContentById_ready:
  assumes "ready s w hs" and "hs ! 0 = ''Post ID''" and "distinct hs" and "''__proto__'' \<notin> set hs"
    and "t \<noteq> []" and "1 \<le> k" and "cell (grid w) k 0 = t"
    and "\<forall>j. 1 \<le> j \<and> j < k \<longrightarrow> cell (grid w) j 0 \<noteq> t"
  shows "\<exists>rec.
      getContentById (JStr t) s w =
        (Inr (Some rec), s\<lparr>lastSyncTime := Some (Suc (clock w))\<rparr>,
         w\<lparr>clock := Suc (clock w),
            requests := requests w @ [Get (A1Range (tabTitle w) (Some 65) (Some 2)
                                             (Some (64 + length hs)) None)]\<rparr>) \<and>
      (\<forall>i < length hs. own rec (hs ! i) = Some (js_or (JStr (cell (grid w) k i)) JNull))"
proof -
  let ?g = "grid w"
  let ?n = "length hs"
  let ?rows = "select ?g (0, Some ?n, 1, None)"
  let ?items = "map (row_to_item hs) ?rows"
  let ?P = "\<lambda>item. prop_of item ''Post ID'' = JStr t"
  have n: "1 \<le> ?n" using assms(1) by (simp add: ready_def)
  then have n0: "0 < ?n" by arith
  have field: "own (?items ! j) (hs ! i) = Some (js_or (JStr (cell ?g (Suc j) i)) JNull)"
    if j: "j < length ?rows" and i: "i < ?n" for j i
  proof -
    have "hs ! i \<noteq> ''__proto__''" using assms(4) i by (metis nth_mem)
    then have "own (?items ! j) (hs ! i) = Some (js_or (at_index (?rows ! j) i) JNull)"
      using j i assms(3) by (simp add: row_to_item_nth)
    also have "js_or (at_index (?rows ! j) i) JNull =
               (if i < ?n \<and> cell ?g (1 + j) i \<noteq> [] then JStr (cell ?g (1 + j) i) else JNull)"
      by (rule select_cell [OF j])
    finally show ?thesis using i by (simp add: js_or_def truthy_def)
  qed
  have P: "?P (?items ! j) \<longleftrightarrow> cell ?g (Suc j) 0 = t" if j: "j < length ?rows" for j
  proof -
    have "own (?items ! j) ''Post ID'' = Some (js_or (JStr (cell ?g (Suc j) 0)) JNull)"
      using field [OF j n0] assms(2) by simp
    then show ?thesis using assms(5) by (auto simp: prop_of_Post_ID js_or_def truthy_def)
  qed
  obtain k' where k': "k = Suc k'" using assms(6) by (cases k) auto
  have kl: "k' < length ?rows"
    using first_row_in_read [OF n assms(5), of ?g 1 k'] assms(7) k' by simp
  have "find ?P ?items = Some (?items ! k')"
  proof (rule find_first)
    show "k' < length ?items" using kl by simp
    show "?P (?items ! k')" using P [OF kl] assms(7) k' by simp
    show "\<forall>j < k'. \<not> ?P (?items ! j)"
    proof (intro allI impI)
      fix j assume j: "j < k'"
      then have "cell ?g (Suc j) 0 \<noteq> t" using assms(8) k' by simp
      moreover have "j < length ?rows" using j kl by simp
      ultimately show "\<not> ?P (?items ! j)" using P by blast
    qed
  qed
  then have "getContentById (JStr t) s w =
        (Inr (Some (?items ! k')), s\<lparr>lastSyncTime := Some (Suc (clock w))\<rparr>,
         w\<lparr>clock := Suc (clock w),
            requests := requests w @ [Get (A1Range (tabTitle w) (Some 65) (Some 2)
                                             (Some (64 + length hs)) None)]\<rparr>)"
    by (simp add: getContentById_def syncSheet_ready [OF assms(1)])
  moreover have "\<forall>i < ?n. own (?items ! k') (hs ! i) = Some (js_or (JStr (cell ?g k i)) JNull)"
    using field [OF kl] k' by simp
  ultimately show ?thesis by blast
qed

text \<open>
  Reading, updating and reading again, in terms of the located row \<open>k\<close>: a field that
  the payload gives as text shows that text as the store enters it; a field that the
  payload does not give is written back from the row just read, entered again; an entry
  sent as \<open>null\<close> leaves the cell alone.
\<close>

lemma update_then_get:
  assumes rd: "ready s w hs" and id0: "hs ! 0 = ''Post ID''" and dist: "distinct hs"
    and np: "''__proto__'' \<notin> set hs"
    and t: "t \<noteq> []" and row: "1 \<le> r" "cell (grid w) r 0 = t"
    and lit: "\<forall>r. entered w r 0 t = t"
    and keep: "prop_of u ''Post ID'' = JUndefined \<or> prop_of u ''Post ID'' = JNull \<or>
               prop_of u ''Post ID'' = JStr t"
    and sendable: "\<forall>h \<in> set hs. prop_of u h \<noteq> JObjectPrototype"
  shows "\<exists>before after s0 w0 w1 s2 w2 k.
      1 \<le> k \<and> cell (grid w) k 0 = t \<and> (\<forall>j. 1 \<le> j \<and> j < k \<longrightarrow> cell (grid w) j 0 \<noteq> t) \<and>
      getContentById (JStr t) s w = (Inr (Some before), s0, w0) \<and>
      updateContent (JStr t) u s0 w0 = (Inr True, s0, w1) \<and>
      getContentById (JStr t) s0 w1 = (Inr (Some after), s2, w2) \<and>
      (\<forall>i < length hs.
         own before (hs ! i) = Some (js_or (JStr (cell (grid w) k i)) JNull) \<and>
         own after (hs ! i) =
           (case prop_of u (hs ! i) of
              JStr v \<Rightarrow> Some (js_or (JStr (store_text (entered w k i) v)) JNull)
            | JUndefined \<Rightarrow> Some (js_or (JStr (store_text (entered w k i) (cell (grid w) k i))) JNull)
            | _ \<Rightarrow> Some (js_or (JStr (cell (grid w) k i)) JNull)))"
proof -
  let ?g = "grid w"
  let ?n = "length hs"
  let ?ent = "entered w"
  have n: "1 \<le> ?n" using rd by (simp add: ready_def)
  then have n0: "0 < ?n" by arith
  from first_row_exists [OF row] obtain k where
    k: "1 \<le> k" "cell ?g k 0 = t" "\<forall>j. 1 \<le> j \<and> j < k \<longrightarrow> cell ?g j 0 \<noteq> t"
    by blast
  let ?s0 = "s\<lparr>lastSyncTime := Some (Suc (clock w))\<rparr>"
  let ?w0 = "w\<lparr>clock := Suc (clock w),
               requests := requests w @ [Get (A1Range (tabTitle w) (Some 65) (Some 2)
                                                (Some (64 + length hs)) None)]\<rparr>"
  from getContentById_ready [OF rd id0 dist np t k] obtain before where
    b: "getContentById (JStr t) s w = (Inr (Some before), ?s0, ?w0)" and
    bf: "\<forall>i < ?n. own before (hs ! i) = Some (js_or (JStr (cell ?g k i)) JNull)"
    by blast
  have rd0: "ready ?s0 ?w0 hs" using rd by (simp add: ready_frame)
  have g0: "grid ?w0 = ?g" by simp
  let ?rows = "select ?g (0, Some ?n, 0, None)"
  let ?new = "newRowData hs u (?rows ! k)"
  let ?g' = "write_cells ?ent ?g k 0 ?new"
  have f: "findIndex (\<lambda>row index. index > 0 \<and> at_index row 0 = JStr t)
             (select (grid ?w0) (0, Some ?n, 0, None)) = Some k"
    unfolding g0 using n t k by (rule findIndex_first_row)
  have kl: "k < length ?rows"
    using first_row_in_read [OF n t, of ?g 0 k] k(2) by simp
  have old: "js_or (at_index (?rows ! k) c) (JStr []) = JStr (cell ?g k c)" if "c < ?n" for c
    using select_cell [OF kl, of c "JStr []"] that by simp
  have newc: "?new ! c = (if prop_of u (hs ! c) \<noteq> JUndefined then prop_of u (hs ! c)
                          else JStr (cell ?g k c))" if c: "c < ?n" for c
    using c by (simp add: newRowData_nth old)
  have ok: "list_all (\<lambda>v. to_json v \<noteq> JsonObject) ?new"
  proof -
    have "to_json (?new ! c) \<noteq> JsonObject" if c: "c < ?n" for c
    proof -
      have "prop_of u (hs ! c) \<noteq> JObjectPrototype" using sendable c by simp
      then show ?thesis unfolding newc [OF c]
        by (cases "prop_of u (hs ! c)") (simp_all add: to_json_def)
    qed
    then show ?thesis by (simp add: list_all_length newRowData_length)
  qed
  have ok0: "list_all (\<lambda>v. to_json v \<noteq> JsonObject)
                      (newRowData hs u (select (grid ?w0) (0, Some ?n, 0, None) ! k))"
    using ok by simp
  from updateContent_ready [OF rd0 f ok0] obtain w1 where
    u: "updateContent (JStr t) u ?s0 ?w0 = (Inr True, ?s0, w1)" and
    w1: "grid w1 = ?g'" and rd1: "ready ?s0 w1 hs" and e1: "entered w1 = ?ent"
    using rd0 by (simp add: ready_frame)
  have cellk: "cell ?g' k c =
                 (case prop_of u (hs ! c) of
                    JStr v \<Rightarrow> store_text (?ent k c) v
                  | JUndefined \<Rightarrow> store_text (?ent k c) (cell ?g k c)
                  | _ \<Rightarrow> cell ?g k c)"
    if c: "c < ?n" for c
  proof -
    have "cell ?g' k c = (case to_json (?new ! c) of JsonString v \<Rightarrow> store_text (?ent k c) v | _ \<Rightarrow> cell ?g k c)"
      using c by (simp add: cell_write_cells newRowData_length)
    then show ?thesis unfolding newc [OF c]
      by (cases "prop_of u (hs ! c)") (simp_all add: to_json_def)
  qed
  have other: "cell ?g' j c = cell ?g j c" if "j \<noteq> k" for j c
    using that by (simp add: cell_write_cells)
  have st: "store_text (?ent k 0) t = t" using lit t by (simp add: store_text_def)
  have k1: "cell (grid w1) k 0 = t"
    unfolding w1 using cellk [OF n0] id0 keep k(2) st by auto
  have k2: "\<forall>j. 1 \<le> j \<and> j < k \<longrightarrow> cell (grid w1) j 0 \<noteq> t"
    unfolding w1 using other k(3) by simp
  from getContentById_ready [OF rd1 id0 dist np t k(1) k1 k2] obtain after s2 w2 where
    a: "getContentById (JStr t) ?s0 w1 = (Inr (Some after), s2, w2)" and
    af: "\<forall>i < ?n. own after (hs ! i) = Some (js_or (JStr (cell (grid w1) k i)) JNull)"
    by blast
  have "own after (hs ! i) =
           (case prop_of u (hs ! i) of
              JStr v \<Rightarrow> Some (js_or (JStr (store_text (?ent k i) v)) JNull)
            | JUndefined \<Rightarrow> Some (js_or (JStr (store_text (?ent k i) (cell ?g k i))) JNull)
            | _ \<Rightarrow> Some (js_or (JStr (cell ?g k i)) JNull))" if i: "i < ?n" for i
    using af [rule_format, OF i] cellk [OF i] unfolding w1
    by (cases "prop_of u (hs ! i)") simp_all
  with b u a bf k show ?thesis by blast
qed

subsection \<open>Update, then read\<close>

text \<open>
  Claim C1, amended. Let the adapter be ready with a schema of distinct column names,
  none of them \<open>__proto__\<close>, whose first column is named \<open>Post ID\<close>; let a data row
  hold in column A the non-empty text \<open>t\<close>, which the store takes literally in that
  column; and let the payload give each schema field as text or not at all, and the
  identifier as \<open>t\<close> or not at all. Then reading the record, updating it and reading it
  again all succeed, and the record is that of the first data row \<open>k\<close> holding \<open>t\<close>.
  In the record read after the update, a schema field that the payload gives as text
  holds what its cell shows after the store has entered that text, or \<open>null\<close> when it
  shows nothing: so the text itself when it is not empty and the store takes it
  literally in that cell, and \<open>null\<close> when it is empty. A schema field that the payload
  does not give equals its value before the update, provided that the store takes the
  text it held literally in that cell.
\<close>

theorem update_then_getContentById:
  assumes "ready s w hs" and "hs ! 0 = ''Post ID''" and "distinct hs"
    and "''__proto__'' \<notin> set hs"
    and "t \<noteq> []" and "1 \<le> r" and "cell (grid w) r 0 = t" and "\<forall>r. entered w r 0 t = t"
    and "own updates ''Post ID'' = None \<or> own updates ''Post ID'' = Some (JStr t)"
    and "\<forall>h \<in> set hs. own updates h = None \<or> (\<exists>v. own updates h = Some (JStr v))"
  shows "\<exists>before after k.
      1 \<le> k \<and> cell (grid w) k 0 = t \<and> (\<forall>j. 1 \<le> j \<and> j < k \<longrightarrow> cell (grid w) j 0 \<noteq> t) \<and>
      read_update_read (JStr t) updates s w = (Inr (Some before), Inr True, Inr (Some after)) \<and>
      (\<forall>i < length hs.
         (\<forall>v. own updates (hs ! i) = Some (JStr v) \<longrightarrow>
              own after (hs ! i) = Some (js_or (JStr (store_text (entered w k i) v)) JNull) \<and>
              (v \<noteq> [] \<and> entered w k i v = v \<longrightarrow> own after (hs ! i) = Some (JStr v)) \<and>
              (v = [] \<longrightarrow> own after (hs ! i) = Some JNull)) \<and>
         (own updates (hs ! i) = None \<and>
          (\<forall>c. own before (hs ! i) = Some (JStr c) \<longrightarrow> entered w k i c = c) \<longrightarrow>
              own after (hs ! i) = own before (hs ! i)))"
proof -
  have keep: "prop_of updates ''Post ID'' = JUndefined \<or> prop_of updates ''Post ID'' = JNull \<or>
              prop_of updates ''Post ID'' = JStr t"
    using assms(9) by (auto simp: prop_of_Post_ID)
  have sendable: "\<forall>h \<in> set hs. prop_of updates h \<noteq> JObjectPrototype"
  proof
    fix h assume h: "h \<in> set hs"
    then have "h \<noteq> ''__proto__''" using assms(4) by auto
    then show "prop_of updates h \<noteq> JObjectPrototype"
      using assms(10) [rule_format, OF h] by (auto simp: prop_of_def)
  qed
  from update_then_get [OF assms(1-8) keep sendable] obtain before after s0 w0 w1 s2 w2 k where
    k: "1 \<le> k" "cell (grid w) k 0 = t" "\<forall>j. 1 \<le> j \<and> j < k \<longrightarrow> cell (grid w) j 0 \<noteq> t" and
    b: "getContentById (JStr t) s w = (Inr (Some before), s0, w0)" and
    u: "updateContent (JStr t) updates s0 w0 = (Inr True, s0, w1)" and
    a: "getContentById (JStr t) s0 w1 = (Inr (Some after), s2, w2)" and
    f: "\<forall>i < length hs.
         own before (hs ! i) = Some (js_or (JStr (cell (grid w) k i)) JNull) \<and>
         own after (hs ! i) =
           (case prop_of updates (hs ! i) of
              JStr v \<Rightarrow> Some (js_or (JStr (store_text (entered w k i) v)) JNull)
            | JUndefined \<Rightarrow> Some (js_or (JStr (store_text (entered w k i) (cell (grid w) k i))) JNull)
            | _ \<Rightarrow> Some (js_or (JStr (cell (grid w) k i)) JNull))"
    by blast
  have run: "read_update_read (JStr t) updates s w = (Inr (Some before), Inr True, Inr (Some after))"
    by (simp add: read_update_read_def b u a)
  have given: "own after (hs ! i) = Some (js_or (JStr (store_text (entered w k i) v)) JNull) \<and>
               (v \<noteq> [] \<and> entered w k i v = v \<longrightarrow> own after (hs ! i) = Some (JStr v)) \<and>
               (v = [] \<longrightarrow> own after (hs ! i) = Some JNull)"
    if i: "i < length hs" and v: "own updates (hs ! i) = Some (JStr v)" for i v
  proof -
    have "prop_of updates (hs ! i) = JStr v" using v by (simp add: prop_of_def)
    then have "own after (hs ! i) = Some (js_or (JStr (store_text (entered w k i) v)) JNull)"
      using f [rule_format, OF i] by simp
    then show ?thesis by (auto simp: store_text_def js_or_def truthy_def)
  qed
  have absent: "own after (hs ! i) = own before (hs ! i)"
    if i: "i < length hs" and v: "own updates (hs ! i) = None"
      and l: "\<forall>c. own before (hs ! i) = Some (JStr c) \<longrightarrow> entered w k i c = c" for i
  proof -
    let ?c = "cell (grid w) k i"
    have bf: "own before (hs ! i) = Some (js_or (JStr ?c) JNull)"
      using f [rule_format, OF i] by simp
    have st: "store_text (entered w k i) ?c = ?c"
    proof (cases "?c = []")
      case True
      then show ?thesis by (simp add: store_text_def)
    next
      case False
      then have "own before (hs ! i) = Some (JStr ?c)" using bf by (simp add: js_or_def truthy_def)
      with l have "entered w k i ?c = ?c" by blast
      then show ?thesis by (simp add: store_text_def)
    qed
    have "hs ! i \<in> set hs" using i by simp
    then have "hs ! i \<noteq> ''__proto__''" using assms(4) by auto
    then have "prop_of updates (hs ! i) = JUndefined \<or> prop_of updates (hs ! i) = JFunction (hs ! i)"
      using v by (simp add: prop_of_def)
    then have "own after (hs ! i) = Some (js_or (JStr ?c) JNull)"
      using f [rule_format, OF i] st by auto
    then show ?thesis using bf by simp
  qed
  from run given absent k show ?thesis by blast
qed

theorem update_then_getContentById_witness:
  "\<exists>before after.
      read_update_read (JStr ''b'') (object [''Status'' \<mapsto> JStr ''Published'']) example_service example_world
        = (Inr (Some before), Inr True, Inr (Some after)) \<and>
      own after ''Status'' = Some (JStr ''Published'') \<and> own after ''Post ID'' = own before ''Post ID''"
proof -
  let ?u = "object [''Status'' \<mapsto> JStr ''Published'']"
  let ?hs = "[''Post ID'', ''Status'']"
  have rd: "ready example_service example_world ?hs"
    by (simp add: ready_def example_service_def example_world_def)
  have c: "cell (grid example_world) 2 0 = ''b''"
    by (simp add: example_world_def cell_def)
  have e: "entered example_world k i c = c" for k i c by (simp add: example_world_def)
  then have e0: "\<forall>r. entered example_world r 0 ''b'' = ''b''" by simp
  have p: "own ?u ''Post ID'' = None \<or> own ?u ''Post ID'' = Some (JStr ''b'')" by simp
  have q: "\<forall>h \<in> set ?hs. own ?u h = None \<or> (\<exists>v. own ?u h = Some (JStr v))"
    by simp
  from update_then_getContentById [OF rd _ _ _ _ _ c e0 p q] obtain before after k where
    run: "read_update_read (JStr ''b'') ?u example_service example_world
            = (Inr (Some before), Inr True, Inr (Some after))" and
    f: "\<forall>i < length ?hs.
         (\<forall>v. own ?u (?hs ! i) = Some (JStr v) \<longrightarrow>
              own after (?hs ! i) = Some (js_or (JStr (store_text (entered example_world k i) v)) JNull) \<and>
              (v \<noteq> [] \<and> entered example_world k i v = v \<longrightarrow> own after (?hs ! i) = Some (JStr v)) \<and>
              (v = [] \<longrightarrow> own after (?hs ! i) = Some JNull)) \<and>
         (own ?u (?hs ! i) = None \<and>
          (\<forall>c. own before (?hs ! i) = Some (JStr c) \<longrightarrow> entered example_world k i c = c) \<longrightarrow>
              own after (?hs ! i) = own before (?hs ! i))"
    by auto
  have "own after ''Status'' = Some (JStr ''Published'')"
    using f [rule_format, of 1] e by (simp add: store_text_def js_or_def truthy_def)
  moreover have "own after ''Post ID'' = own before ''Post ID''"
    using f [rule_format, of 0] e by simp
  ultimately show ?thesis using run by blast
qed

text \<open>
  Claim C1 as stated fails: a field that the payload sets to the empty text reads back
  as \<open>null\<close>, not as the patched value.
\<close>

theorem empty_text_patch_reads_back_null:
  "read_update_read (JStr ''b'') (object [''Status'' \<mapsto> JStr []]) example_service example_world =
     (Inr (Some (object [''Post ID'' \<mapsto> JStr ''b'', ''Status'' \<mapsto> JStr ''Approved''])),
      Inr True,
      Inr (Some (object [''Post ID'' \<mapsto> JStr ''b'', ''Status'' \<mapsto> JNull]))) \<and>
   prop_of (object [''Post ID'' \<mapsto> JStr ''b'', ''Status'' \<mapsto> JNull]) ''Status'' = JNull"
  by (simp add: example_service_def example_world_def eval_defs)

text \<open>
  On a sheet whose cells have the automatic format the store reads typed digits as a
  number: the text \<open>007\<close> written by an update reads back as \<open>7\<close>.
\<close>

lemma typed_digits_read_back_as_number:
  "read_update_read (JStr ''b'') (object [''Status'' \<mapsto> JStr ''007'']) example_service automatic_world =
     (Inr (Some (object [''Post ID'' \<mapsto> JStr ''b'', ''Status'' \<mapsto> JStr ''Approved''])),
      Inr True,
      Inr (Some (object [''Post ID'' \<mapsto> JStr ''b'', ''Status'' \<mapsto> JStr ''7''])))"
  by (simp add: example_service_def automatic_world_def example_world_def typed_number_def eval_defs)

subsection \<open>The example of the specification\<close>

text \<open>
  Claim C2 as stated fails: \<open>getContentById\<close> looks the identifier up in the field named
  \<open>Post ID\<close>, which a sheet with the columns \<open>ID, Status\<close> does not have, so nothing is
  found.
\<close>

theorem getContentById_without_Post_ID_column:
  "fst (getContentById (JStr ''b'') spec_service spec_world) = Inr None"
  by (simp add: spec_service_def spec_world_def eval_defs)

text \<open>
  Claim C2, amended. With the first column named \<open>Post ID\<close> and the data rows
  \<open>a, Draft\<close> and \<open>b, Approved\<close>, \<open>getContentById(b)\<close> returns the record of row \<open>b\<close>.
  Under either name of the first column, \<open>updateContent(b, {Status: Published})\<close>
  succeeds, the sheet afterwards holds \<open>b, Published\<close> in row \<open>b\<close> and row \<open>a\<close> as
  before, and a sync returns the two records accordingly.
\<close>

theorem example_get_update_sync:
  "fst (getContentById (JStr ''b'') example_service example_world) =
     Inr (Some (object [''Post ID'' \<mapsto> JStr ''b'', ''Status'' \<mapsto> JStr ''Approved''])) \<and>
   fst (updateContent (JStr ''b'') (object [''Status'' \<mapsto> JStr ''Published'']) example_service example_world)
     = Inr True \<and>
   grid (snd (snd (updateContent (JStr ''b'') (object [''Status'' \<mapsto> JStr ''Published''])
                     example_service example_world))) =
     [[''Post ID'', ''Status''], [''a'', ''Draft''], [''b'', ''Published'']] \<and>
   fst (syncSheet
          (fst (snd (updateContent (JStr ''b'') (object [''Status'' \<mapsto> JStr ''Published''])
                       example_service example_world)))
          (snd (snd (updateContent (JStr ''b'') (object [''Status'' \<mapsto> JStr ''Published''])
                       example_service example_world)))) =
     Inr [(object [''Post ID'' \<mapsto> JStr ''a'', ''Status'' \<mapsto> JStr ''Draft'']),
          (object [''Post ID'' \<mapsto> JStr ''b'', ''Status'' \<mapsto> JStr ''Published''])] \<and>
   fst (updateContent (JStr ''b'') (object [''Status'' \<mapsto> JStr ''Published'']) spec_service spec_world)
     = Inr True \<and>
   grid (snd (snd (updateContent (JStr ''b'') (object [''Status'' \<mapsto> JStr ''Published''])
                     spec_service spec_world))) =
     [[''ID'', ''Status''], [''a'', ''Draft''], [''b'', ''Published'']] \<and>
   fst (syncSheet
          (fst (snd (updateContent (JStr ''b'') (object [''Status'' \<mapsto> JStr ''Published''])
                       spec_service spec_world)))
          (snd (snd (updateContent (JStr ''b'') (object [''Status'' \<mapsto> JStr ''Published''])
                       spec_service spec_world)))) =
     Inr [(object [''ID'' \<mapsto> JStr ''a'', ''Status'' \<mapsto> JStr ''Draft'']),
          (object [''ID'' \<mapsto> JStr ''b'', ''Status'' \<mapsto> JStr ''Published''])]"
proof -
  have u1: "updateContent (JStr ''b'') (object [''Status'' \<mapsto> JStr ''Published'']) example_service example_world =
      (Inr True, example_service,
       \<lparr>tabTitle = ''Sheet1'',
          grid = [[''Post ID'', ''Status''], [''a'', ''Draft''], [''b'', ''Published'']],
          entered = (\<lambda>r c s. s), clock = 2, outages = [],
          requests = [Get (A1Range ''Sheet1'' (Some 65) None (Some 66) None),
                      Update (A1Range ''Sheet1'' (Some 65) (Some 3) (Some 66) (Some 3))
                             [[JStr ''b'', JStr ''Published'']]]\<rparr>)"
    by (simp add: example_service_def example_world_def eval_defs)
  have u2: "updateContent (JStr ''b'') (object [''Status'' \<mapsto> JStr ''Published'']) spec_service spec_world =
      (Inr True, spec_service,
       \<lparr>tabTitle = ''Sheet1'',
          grid = [[''ID'', ''Status''], [''a'', ''Draft''], [''b'', ''Published'']],
          entered = (\<lambda>r c s. s), clock = 2, outages = [],
          requests = [Get (A1Range ''Sheet1'' (Some 65) None (Some 66) None),
                      Update (A1Range ''Sheet1'' (Some 65) (Some 3) (Some 66) (Some 3))
                             [[JStr ''b'', JStr ''Published'']]]\<rparr>)"
    by (simp add: spec_service_def spec_world_def eval_defs)
  have g: "fst (getContentById (JStr ''b'') example_service example_world) =
     Inr (Some (object [''Post ID'' \<mapsto> JStr ''b'', ''Status'' \<mapsto> JStr ''Approved'']))"
    by (simp add: example_service_def example_world_def eval_defs)
  have s1: "fst (syncSheet example_service
       \<lparr>tabTitle = ''Sheet1'',
          grid = [[''Post ID'', ''Status''], [''a'', ''Draft''], [''b'', ''Published'']],
          entered = (\<lambda>r c s. s), clock = 2, outages = [],
          requests = [Get (A1Range ''Sheet1'' (Some 65) None (Some 66) None),
                      Update (A1Range ''Sheet1'' (Some 65) (Some 3) (Some 66) (Some 3))
                             [[JStr ''b'', JStr ''Published'']]]\<rparr>) =
     Inr [(object [''Post ID'' \<mapsto> JStr ''a'', ''Status'' \<mapsto> JStr ''Draft'']),
          (object [''Post ID'' \<mapsto> JStr ''b'', ''Status'' \<mapsto> JStr ''Published''])]"
    by (simp add: example_service_def eval_defs)
  have s2: "fst (syncSheet spec_service
       \<lparr>tabTitle = ''Sheet1'',
          grid = [[''ID'', ''Status''], [''a'', ''Draft''], [''b'', ''Published'']],
          entered = (\<lambda>r c s. s), clock = 2, outages = [],
          requests = [Get (A1Range ''Sheet1'' (Some 65) None (Some 66) None),
                      Update (A1Range ''Sheet1'' (Some 65) (Some 3) (Some 66) (Some 3))
                             [[JStr ''b'', JStr ''Published'']]]\<rparr>) =
     Inr [(object [''ID'' \<mapsto> JStr ''a'', ''Status'' \<mapsto> JStr ''Draft'']),
          (object [''ID'' \<mapsto> JStr ''b'', ''Status'' \<mapsto> JStr ''Published''])]"
    by (simp add: spec_service_def eval_defs)
  show ?thesis unfolding u1 u2 using g s1 s2 by simp
qed

subsection \<open>No empty text in a record\<close>

lemma syncSheet_values:
  assumes "syncSheet s w = (Inr recs, s', w')" and "rec \<in> set recs"
  shows "own rec k \<noteq> Some (JStr []) \<and> own rec k \<noteq> Some JUndefined \<and> prop_of rec k \<noteq> JStr []"
proof -
  from syncSheet_Inr [OF assms(1)] obtain hs rows where "recs = map (row_to_item hs) rows"
    by blast
  then obtain row where "rec = row_to_item hs row" using assms(2) by auto
  then have "own rec k \<noteq> Some (JStr []) \<and> own rec k \<noteq> Some JUndefined"
    using row_to_item_values [of hs row k] by auto
  then show ?thesis by (auto simp: prop_of_def split: option.splits)
qed

lemma getContentById_Some:
  assumes "getContentById pid s w = (Inr (Some rec), s', w')"
  shows "\<exists>recs. syncSheet s w = (Inr recs, s', w') \<and> rec \<in> set recs"
proof -
  from assms obtain recs where
    "syncSheet s w = (Inr recs, s', w')" "find (\<lambda>item. prop_of item ''Post ID'' = pid) recs = Some rec"
    by (auto simp: getContentById_def split: prod.splits sum.splits)
  then show ?thesis by (auto simp: find_Some_iff)
qed

text \<open>
  Claim C10. No field of a record returned by \<open>syncSheet\<close>, and so none of a record
  returned by \<open>getContentById\<close>, holds the empty text (or \<open>undefined\<close>), and no property
  read on such a record yields the empty text: a blank or missing cell is read as
  \<open>null\<close>. In particular, under the conditions of the update-then-read property, a
  schema field that the payload sets to the empty text reads back as \<open>null\<close>.
\<close>

theorem sync_never_yields_empty_text:
  "(syncSheet s w = (Inr recs, s', w') \<longrightarrow>
      (\<forall>rec \<in> set recs. \<forall>k. own rec k \<noteq> Some (JStr []) \<and> own rec k \<noteq> Some JUndefined \<and>
                                prop_of rec k \<noteq> JStr [])) \<and>
   (getContentById pid s w = (Inr (Some found), s', w') \<longrightarrow>
      (\<forall>k. own found k \<noteq> Some (JStr []) \<and> own found k \<noteq> Some JUndefined \<and>
           prop_of found k \<noteq> JStr [])) \<and>
   (ready s w hs \<and> hs ! 0 = ''Post ID'' \<and> distinct hs \<and> ''__proto__'' \<notin> set hs \<and>
    t \<noteq> [] \<and> 1 \<le> r \<and> cell (grid w) r 0 = t \<and> (\<forall>k. entered w k 0 t = t) \<and>
    (prop_of updates ''Post ID'' = JUndefined \<or> prop_of updates ''Post ID'' = JNull \<or>
     prop_of updates ''Post ID'' = JStr t) \<and>
    (\<forall>c \<in> set hs. prop_of updates c \<noteq> JObjectPrototype) \<and>
    h \<in> set hs \<and> prop_of updates h = JStr [] \<longrightarrow>
      (\<exists>before after.
         read_update_read (JStr t) updates s w = (Inr (Some before), Inr True, Inr (Some after)) \<and>
         own after h = Some JNull))"
proof (intro conjI impI)
  assume "syncSheet s w = (Inr recs, s', w')"
  then show "\<forall>rec \<in> set recs. \<forall>k. own rec k \<noteq> Some (JStr []) \<and> own rec k \<noteq> Some JUndefined \<and>
                                prop_of rec k \<noteq> JStr []"
    using syncSheet_values by blast
next
  assume "getContentById pid s w = (Inr (Some found), s', w')"
  from getContentById_Some [OF this]
  show "\<forall>k. own found k \<noteq> Some (JStr []) \<and> own found k \<noteq> Some JUndefined \<and>
            prop_of found k \<noteq> JStr []"
    using syncSheet_values by blast
next
  assume a: "ready s w hs \<and> hs ! 0 = ''Post ID'' \<and> distinct hs \<and> ''__proto__'' \<notin> set hs \<and>
    t \<noteq> [] \<and> 1 \<le> r \<and> cell (grid w) r 0 = t \<and> (\<forall>k. entered w k 0 t = t) \<and>
    (prop_of updates ''Post ID'' = JUndefined \<or> prop_of updates ''Post ID'' = JNull \<or>
     prop_of updates ''Post ID'' = JStr t) \<and>
    (\<forall>c \<in> set hs. prop_of updates c \<noteq> JObjectPrototype) \<and>
    h \<in> set hs \<and> prop_of updates h = JStr []"
  then obtain i where i: "i < length hs" "hs ! i = h" by (auto simp: in_set_conv_nth)
  from a have "\<exists>before after s0 w0 w1 s2 w2 k.
      1 \<le> k \<and> cell (grid w) k 0 = t \<and> (\<forall>j. 1 \<le> j \<and> j < k \<longrightarrow> cell (grid w) j 0 \<noteq> t) \<and>
      getContentById (JStr t) s w = (Inr (Some before), s0, w0) \<and>
      updateContent (JStr t) updates s0 w0 = (Inr True, s0, w1) \<and>
      getContentById (JStr t) s0 w1 = (Inr (Some after), s2, w2) \<and>
      (\<forall>i < length hs.
         own before (hs ! i) = Some (js_or (JStr (cell (grid w) k i)) JNull) \<and>
         own after (hs ! i) =
           (case prop_of updates (hs ! i) of
              JStr v \<Rightarrow> Some (js_or (JStr (store_text (entered w k i) v)) JNull)
            | JUndefined \<Rightarrow> Some (js_or (JStr (store_text (entered w k i) (cell (grid w) k i))) JNull)
            | _ \<Rightarrow> Some (js_or (JStr (cell (grid w) k i)) JNull)))"
    by (intro update_then_get) auto
  then obtain before after s0 w0 w1 s2 w2 k where
    b: "getContentById (JStr t) s w = (Inr (Some before), s0, w0)" and
    u: "updateContent (JStr t) updates s0 w0 = (Inr True, s0, w1)" and
    g: "getContentById (JStr t) s0 w1 = (Inr (Some after), s2, w2)" and
    f: "\<forall>i < length hs.
         own before (hs ! i) = Some (js_or (JStr (cell (grid w) k i)) JNull) \<and>
         own after (hs ! i) =
           (case prop_of updates (hs ! i) of
              JStr v \<Rightarrow> Some (js_or (JStr (store_text (entered w k i) v)) JNull)
            | JUndefined \<Rightarrow> Some (js_or (JStr (store_text (entered w k i) (cell (grid w) k i))) JNull)
            | _ \<Rightarrow> Some (js_or (JStr (cell (grid w) k i)) JNull))"
    by blast
  have "read_update_read (JStr t) updates s w = (Inr (Some before), Inr True, Inr (Some after))"
    by (simp add: read_update_read_def b u g)
  moreover have "own after h = Some JNull"
    using f [rule_format, OF i(1)] i(2) a by (simp add: store_text_def js_or_def truthy_def)
  ultimately show "\<exists>before after.
         read_update_read (JStr t) updates s w = (Inr (Some before), Inr True, Inr (Some after)) \<and>
         own after h = Some JNull"
    by blast
qed

theorem sync_never_yields_empty_text_witness:
  "\<exists>before after.
      read_update_read (JStr ''b'') (object [''Status'' \<mapsto> JStr []]) example_service example_world
        = (Inr (Some before), Inr True, Inr (Some after)) \<and>
      own after ''Status'' = Some JNull"
proof -
  note t = sync_never_yields_empty_text
    [where s = example_service and w = example_world and hs = "[''Post ID'', ''Status'']"
       and t = "''b''" and r = 2 and updates = "object [''Status'' \<mapsto> JStr []]" and h = "''Status''"]
  have "ready example_service example_world [''Post ID'', ''Status'']"
    by (simp add: ready_def example_service_def example_world_def)
  moreover have "cell (grid example_world) 2 0 = ''b''"
    by (simp add: example_world_def cell_def)
  moreover have "\<forall>k. entered example_world k 0 ''b'' = ''b''" by (simp add: example_world_def)
  moreover have "prop_of (object [''Status'' \<mapsto> JStr []]) ''Post ID'' = JUndefined"
    and "prop_of (object [''Status'' \<mapsto> JStr []]) ''Status'' = JStr []"
    by (simp_all add: prop_of_def prototype_methods_def)
  ultimately show ?thesis
    using t [THEN conjunct2, THEN conjunct2] by simp
qed

subsection \<open>Schemas whose last column the adapter cannot name\<close>

text \<open>
  \<open>String.fromCharCode(65 + n - 1)\<close> is a column letter only for \<open>1 \<le> n \<le> 26\<close>. With an
  empty schema the label is \<open>@\<close>, with 27 columns it is \<open>[\<close>: the store rejects the
  range, so a sync and an update fail before any row is read or written.
\<close>

lemma values_get_unresolved:
  assumes "resolve w rng = None"
  shows "fst (values_get rng w) = Inl RemoteError"
proof -
  obtain ok w1 where rc: "remote_call (Get rng) w = (ok, w1)" by (cases "remote_call (Get rng) w")
  from remote_call_frame [OF rc] have "resolve w1 rng = resolve w rng" by (intro resolve_frame) auto
  then show ?thesis using assms rc by (cases ok) (simp_all add: values_get_def)
qed

lemma resolve_bad_label:
  assumes "length hs = 0 \<or> 26 < length hs" and "length hs \<le> 18278"
  shows "resolve w (A1Range t (Some 65) sr (Some (fromCharCode (65 + int (length hs) - 1))) er) = None"
proof -
  have "fromCharCode (65 + int (length hs) - 1) = 64 + length hs"
    using assms(2) by (simp only: lastCol_wrap) simp
  then show ?thesis using assms(1) by (auto simp: resolve_def col_number_def)
qed

lemma syncSheet_unaddressable:
  assumes "columnHeaders s = Some hs" and "length hs = 0 \<or> 26 < length hs"
    and "length hs \<le> 18278"
  shows "fst (syncSheet s w) = Inl RemoteError \<or> fst (syncSheet s w) = Inl NotInitialized"
proof (cases "not_initialized s")
  case True
  then show ?thesis by (simp add: syncSheet_def)
next
  case False
  let ?rng = "A1Range (title_text (sheetTitle s)) (Some 65) (Some 2)
                (Some (fromCharCode (65 + int (length hs) - 1))) None"
  have "fst (values_get ?rng w) = Inl RemoteError"
    using resolve_bad_label [OF assms(2,3)] by (rule values_get_unresolved)
  then show ?thesis
    using False assms(1)
    by (cases "values_get ?rng w") (simp add: syncSheet_def getColumnHeaders_def Let_def)
qed

lemma updateContent_unaddressable:
  assumes "columnHeaders s = Some hs" and "length hs = 0 \<or> 26 < length hs"
    and "length hs \<le> 18278"
  shows "fst (updateContent pid u s w) = Inl RemoteError \<or>
         fst (updateContent pid u s w) = Inl NotInitialized"
proof (cases "not_initialized s")
  case True
  then show ?thesis by (simp add: updateContent_def)
next
  case False
  let ?rng = "A1Range (title_text (sheetTitle s)) (Some 65) None
                (Some (fromCharCode (65 + int (length hs) - 1))) None"
  have "fst (values_get ?rng w) = Inl RemoteError"
    using resolve_bad_label [OF assms(2,3)] by (rule values_get_unresolved)
  then show ?thesis
    using False assms(1)
    by (cases "values_get ?rng w") (simp add: updateContent_def getColumnHeaders_def Let_def)
qed

end
